theory Spec2Isabelle
  imports Complex_Main "HOL-Library.AList"
begin

section \<open>Data model of \<^verbatim>\<open>src/lib/AudioStateManager.ts\<close>\<close>

text \<open>
  JavaScript numbers are modelled as reals: rounding of IEEE doubles and the value NaN
  are outside the model. A number is truthy when it is not zero, a string when it is
  not empty.

  Objects used as dictionaries (\<^verbatim>\<open>Record<string, SoundState>\<close>, \<^verbatim>\<open>Map\<close>) are
  association lists in insertion order with pairwise distinct keys: writing an
  existing key keeps its position, writing a new key appends it, \<^verbatim>\<open>delete\<close> removes
  it (\<open>AList.update\<close>, \<open>AList.delete\<close>). Sound ids are assumed not to be canonical
  array indices, which JavaScript would enumerate first.
\<close>

datatype TimerOption =
  T5min | T15min | T30min | T45min | T60min | T75min | T90min | Endless

text \<open>
  \<^verbatim>\<open>Sound\<close> is declared in \<^verbatim>\<open>@/data/sounds\<close>; of its fields the record has the three
  that this module reads (\<^verbatim>\<open>id\<close>, \<^verbatim>\<open>name\<close>, \<^verbatim>\<open>audioSrc\<close>). The catalogue \<^verbatim>\<open>sounds\<close> of
  the same module is a parameter \<open>catalogue\<close> of every function that consults it, so
  that nothing proved here depends on which sounds it lists.
\<close>

record Sound =
  sound_id :: string
  sound_name :: string
  audioSrc :: string

text \<open>
  The values that \<^verbatim>\<open>attachCrossfadeListener\<close> closes over when it is attached to an
  audio element: the sound, and the track volume and master volume \<^emph>\<open>of that moment\<close>.
\<close>

record Captured =
  cap_sound :: Sound
  cap_volume :: real
  cap_masterVolume :: real

text \<open>
  An \<^verbatim>\<open>HTMLAudioElement\<close>. Elements live in a store (a list; the handle of an element
  is its index) because the reducer mutates elements that several states share.
  \<open>el_volume\<close> is the element's \<^verbatim>\<open>volume\<close> (its effective gain), \<open>el_listener\<close> the
  closure of the \<^verbatim>\<open>timeupdate\<close> and \<^verbatim>\<open>error\<close> handlers when they are attached, and
  \<open>el_crossfadeTriggered\<close> the custom property \<^verbatim>\<open>_crossfadeTriggered\<close>.
  \<^verbatim>\<open>play()\<close> clears \<open>el_paused\<close> and \<^verbatim>\<open>pause()\<close> sets it; a rejected play promise is
  only logged by the source and is not modelled. The range check of the \<^verbatim>\<open>volume\<close>
  setter is not modelled either.
\<close>

record AudioElement =
  el_src :: string
  el_volume :: real
  el_paused :: bool
  el_crossfadeTriggered :: bool
  el_listener :: "Captured option"

record ActiveSound =
  sound :: Sound
  audio :: nat
  volume :: real

text \<open>
  \<^verbatim>\<open>SoundState\<close>. The field \<^verbatim>\<open>isPlaying\<close> is optional in the model because
  \<^verbatim>\<open>SET_VOLUME\<close> and \<^verbatim>\<open>APPLY_MIX\<close> build entries by spreading a possibly missing entry.
\<close>

record SoundState =
  ss_volume :: real
  ss_isPlaying :: "bool option"

type_synonym SoundStates = "(string \<times> SoundState) list"

record AudioState =
  activeSounds :: "ActiveSound list"
  masterVolume :: real
  isPlaying :: bool
  timer :: TimerOption
  timeRemaining :: "real option"
  timerEndTime :: "real option"
  soundStates :: SoundStates

record SoundMix =
  mix_name :: string
  mix_description :: string
  mix_sounds :: "(string \<times> real) list"

datatype AudioAction =
    TOGGLE_SOUND Sound
  | SET_VOLUME string real
  | SET_MASTER_VOLUME real
  | TOGGLE_PLAY_PAUSE
  | SET_TIMER TimerOption
  | CANCEL_TIMER
  | UPDATE_TIMER "real option"
  | PAUSE_ALL_SOUNDS
  | PLAY_ALL_SOUNDS
  | APPLY_MIX SoundMix
  | SAVE_CUSTOM_MIX SoundMix
  | INITIALIZE_STATE SoundStates

definition MAX_CONCURRENT_SOUNDS :: nat where
  "MAX_CONCURRENT_SOUNDS = 3"

definition initialAudioState :: AudioState where
  "initialAudioState =
     \<lparr>activeSounds = [], masterVolume = 0.7, isPlaying = False, timer = Endless,
      timeRemaining = None, timerEndTime = None, soundStates = []\<rparr>"

text \<open>
  What the code reaches outside its own state: the store of audio elements, the two
  \<^verbatim>\<open>localStorage\<close> items (the value last written, as \<^verbatim>\<open>JSON.parse\<close> of the written
  string gives it back, \<open>Malformed\<close> standing for content that \<^verbatim>\<open>JSON.parse\<close>
  rejects) and the intervals registered with \<^verbatim>\<open>setInterval\<close> and not yet cleared.
  Interval ids are positive, so the truthiness tests on \<^verbatim>\<open>timerInterval\<close> are tests
  for \<^verbatim>\<open>null\<close>.
\<close>

datatype stored = Malformed | Parsed SoundStates

record Env =
  audios :: "AudioElement list"
  stored_audio_state :: "stored option"
  stored_custom_mixes :: "SoundMix list option"
  intervals :: "nat set"
  next_interval :: nat

section \<open>Audio elements\<close>

definition new_Audio :: "string \<Rightarrow> AudioElement" where
  "new_Audio url =
     \<lparr>el_src = url, el_volume = 1, el_paused = True, el_crossfadeTriggered = False,
      el_listener = None\<rparr>"

definition alloc :: "AudioElement \<Rightarrow> Env \<Rightarrow> nat \<times> Env" where
  "alloc a e = (length (audios e), e\<lparr>audios := audios e @ [a]\<rparr>)"

definition modify :: "nat \<Rightarrow> (AudioElement \<Rightarrow> AudioElement) \<Rightarrow> Env \<Rightarrow> Env" where
  "modify h f e =
     (if h < length (audios e) then e\<lparr>audios := (audios e)[h := f (audios e ! h)]\<rparr> else e)"

definition play :: "nat \<Rightarrow> Env \<Rightarrow> Env" where
  "play h = modify h (\<lambda>a. a\<lparr>el_paused := False\<rparr>)"

definition pause :: "nat \<Rightarrow> Env \<Rightarrow> Env" where
  "pause h = modify h (\<lambda>a. a\<lparr>el_paused := True\<rparr>)"

definition set_src :: "nat \<Rightarrow> string \<Rightarrow> Env \<Rightarrow> Env" where
  "set_src h url = modify h (\<lambda>a. a\<lparr>el_src := url\<rparr>)"

definition set_volume :: "nat \<Rightarrow> real \<Rightarrow> Env \<Rightarrow> Env" where
  "set_volume h v = modify h (\<lambda>a. a\<lparr>el_volume := v\<rparr>)"

definition setItem_audio_state :: "SoundStates \<Rightarrow> Env \<Rightarrow> Env" where
  "setItem_audio_state ss e = e\<lparr>stored_audio_state := Some (Parsed ss)\<rparr>"

definition setInterval :: "Env \<Rightarrow> nat \<times> Env" where
  "setInterval e =
     (Suc (next_interval e),
      e\<lparr>intervals := insert (Suc (next_interval e)) (intervals e),
        next_interval := Suc (next_interval e)\<rparr>)"

definition clearInterval :: "nat \<Rightarrow> Env \<Rightarrow> Env" where
  "clearInterval i e = e\<lparr>intervals := intervals e - {i}\<rparr>"

text \<open>\<^verbatim>\<open>attachCrossfadeListener\<close>: resets the trigger flag and registers the handlers.\<close>

definition attachCrossfadeListener :: "nat \<Rightarrow> Sound \<Rightarrow> real \<Rightarrow> real \<Rightarrow> Env \<Rightarrow> Env" where
  "attachCrossfadeListener h sd vol master =
     modify h (\<lambda>a. a\<lparr>el_crossfadeTriggered := False,
                      el_listener := Some \<lparr>cap_sound = sd, cap_volume = vol,
                                            cap_masterVolume = master\<rparr>\<rparr>)"

text \<open>\<^verbatim>\<open>createAudioElement\<close>; the flag says whether \<^verbatim>\<open>onCrossfade\<close> was passed.\<close>

definition createAudioElement :: "Sound \<Rightarrow> real \<Rightarrow> real \<Rightarrow> bool \<Rightarrow> Env \<Rightarrow> nat \<times> Env" where
  "createAudioElement sd vol master onCrossfade e =
     (let (h, e1) = alloc ((new_Audio (audioSrc sd))\<lparr>el_volume := vol * master\<rparr>) e
      in (h, if onCrossfade then attachCrossfadeListener h sd vol master e1 else e1))"

section \<open>The reducer\<close>

fun findIndex :: "('a \<Rightarrow> bool) \<Rightarrow> 'a list \<Rightarrow> nat option" where
  "findIndex P [] = None"
| "findIndex P (x # xs) =
     (if P x then Some 0 else map_option Suc (findIndex P xs))"

definition splice1 :: "nat \<Rightarrow> 'a list \<Rightarrow> 'a list" where
  "splice1 i xs = take i xs @ drop (Suc i) xs"

definition has_id :: "string \<Rightarrow> ActiveSound \<Rightarrow> bool" where
  "has_id k a = (sound_id (sound a) = k)"

definition saved_volume_or_default :: "SoundState option \<Rightarrow> real" where
  \<comment> \<open>\<^verbatim>\<open>savedState?.volume ? savedState.volume / 100 : 1\<close>\<close>
  "saved_volume_or_default savedState =
     (case savedState of
        None \<Rightarrow> 1
      | Some s \<Rightarrow> if ss_volume s \<noteq> 0 then ss_volume s / 100 else 1)"

definition toggle_sound :: "Sound \<Rightarrow> Env \<times> AudioState \<Rightarrow> Env \<times> AudioState" where
  "toggle_sound sd = (\<lambda>(e, st).
     (case findIndex (has_id (sound_id sd)) (activeSounds st) of
        Some existingIndex \<Rightarrow>
          (let audioElement = audio (activeSounds st ! existingIndex);
               e1 = set_src audioElement [] (pause audioElement e);
               newActiveSounds = splice1 existingIndex (activeSounds st);
               newSoundStates = AList.delete (sound_id sd) (soundStates st);
               e2 = setItem_audio_state newSoundStates e1;
               newIsPlaying = (if newActiveSounds = [] then False else isPlaying st)
           in (e2, st\<lparr>activeSounds := newActiveSounds, soundStates := newSoundStates,
                      isPlaying := newIsPlaying\<rparr>))
      | None \<Rightarrow>
          if length (activeSounds st) \<ge> MAX_CONCURRENT_SOUNDS then (e, st)
          else
            (let savedState = map_of (soundStates st) (sound_id sd);
                 vol = saved_volume_or_default savedState;
                 (h, e1) = createAudioElement sd vol (masterVolume st) True e;
                 newSound = \<lparr>sound = sd, audio = h, volume = vol\<rparr>;
                 newSoundStates =
                   AList.update (sound_id sd)
                     \<lparr>ss_volume = vol * 100, ss_isPlaying = Some (isPlaying st)\<rparr>
                     (soundStates st);
                 e2 = setItem_audio_state newSoundStates e1;
                 newIsPlaying = isPlaying st;
                 e3 = (if newIsPlaying then play h e2 else e2)
             in (e3, st\<lparr>activeSounds := activeSounds st @ [newSound],
                        soundStates := newSoundStates, isPlaying := newIsPlaying\<rparr>))))"

definition spread_volume :: "SoundState option \<Rightarrow> real \<Rightarrow> SoundState" where
  \<comment> \<open>\<^verbatim>\<open>{ ...entry, volume: v }\<close> for a possibly missing entry\<close>
  "spread_volume entry v =
     (case entry of
        None \<Rightarrow> \<lparr>ss_volume = v, ss_isPlaying = None\<rparr>
      | Some s \<Rightarrow> s\<lparr>ss_volume := v\<rparr>)"

definition mark_all :: "bool \<Rightarrow> SoundStates \<Rightarrow> SoundStates" where
  \<comment> \<open>the loop over \<^verbatim>\<open>Object.keys(newSoundStates)\<close> that rewrites every playing flag\<close>
  "mark_all b ss = map (\<lambda>(k, s). (k, s\<lparr>ss_isPlaying := Some b\<rparr>)) ss"

definition src_of :: "nat \<Rightarrow> Env \<Rightarrow> string" where
  "src_of h e = (if h < length (audios e) then el_src (audios e ! h) else [])"

definition start_playback :: "ActiveSound \<Rightarrow> Env \<Rightarrow> Env" where
  \<comment> \<open>the body of the \<^verbatim>\<open>forEach\<close> in \<^verbatim>\<open>PLAY_ALL_SOUNDS\<close> and \<^verbatim>\<open>TOGGLE_PLAY_PAUSE\<close>\<close>
  "start_playback a e =
     (if audioSrc (sound a) \<noteq> [] \<and> src_of (audio a) e \<noteq> [] then play (audio a) e
      else if audioSrc (sound a) \<noteq> []
        then play (audio a) (set_src (audio a) (audioSrc (sound a)) e)
      else e)"

definition set_volume_for :: "string \<Rightarrow> real \<Rightarrow> Env \<times> AudioState \<Rightarrow> Env \<times> AudioState" where
  "set_volume_for soundId vol = (\<lambda>(e, st).
     (let e1 = fold (\<lambda>a. if has_id soundId a
                           then set_volume (audio a) (vol * masterVolume st) else id)
                 (activeSounds st) e;
          newActiveSounds =
            map (\<lambda>a. if has_id soundId a then a\<lparr>volume := vol\<rparr> else a) (activeSounds st);
          newSoundStates =
            AList.update soundId
              (spread_volume (map_of (soundStates st) soundId) (vol * 100)) (soundStates st);
          e2 = setItem_audio_state newSoundStates e1
      in (e2, st\<lparr>activeSounds := newActiveSounds, soundStates := newSoundStates\<rparr>)))"

definition set_master_volume :: "real \<Rightarrow> Env \<times> AudioState \<Rightarrow> Env \<times> AudioState" where
  "set_master_volume vol = (\<lambda>(e, st).
     (fold (\<lambda>a. set_volume (audio a) (volume a * vol)) (activeSounds st) e,
      st\<lparr>masterVolume := vol\<rparr>))"

definition toggle_play_pause :: "Env \<times> AudioState \<Rightarrow> Env \<times> AudioState" where
  "toggle_play_pause = (\<lambda>(e, st).
     (let newIsPlaying = \<not> isPlaying st;
          e1 = fold (\<lambda>a. if newIsPlaying then start_playback a else pause (audio a))
                 (activeSounds st) e;
          newSoundStates = mark_all newIsPlaying (soundStates st);
          e2 = setItem_audio_state newSoundStates e1
      in (e2, st\<lparr>isPlaying := newIsPlaying, soundStates := newSoundStates\<rparr>)))"

fun minutes_of :: "TimerOption \<Rightarrow> real" where
  "minutes_of T5min = 5"
| "minutes_of T15min = 15"
| "minutes_of T30min = 30"
| "minutes_of T45min = 45"
| "minutes_of T60min = 60"
| "minutes_of T75min = 75"
| "minutes_of T90min = 90"
| "minutes_of Endless = 0"

text \<open>\<open>now\<close> is the value of \<^verbatim>\<open>Date.now()\<close> at the call.\<close>

definition set_timer :: "real \<Rightarrow> TimerOption \<Rightarrow> AudioState \<Rightarrow> AudioState" where
  "set_timer now t st =
     (if t = Endless
      then st\<lparr>timer := Endless, timeRemaining := None, timerEndTime := None\<rparr>
      else
        (let minutes = minutes_of t;
             milliseconds = minutes * 60 * 1000;
             endTime = now + milliseconds
         in st\<lparr>timer := t, timeRemaining := Some milliseconds,
                timerEndTime := Some endTime\<rparr>))"

definition cancel_timer :: "AudioState \<Rightarrow> AudioState" where
  "cancel_timer st = st\<lparr>timer := Endless, timeRemaining := None, timerEndTime := None\<rparr>"

definition pause_all_sounds :: "Env \<times> AudioState \<Rightarrow> Env \<times> AudioState" where
  "pause_all_sounds = (\<lambda>(e, st).
     (let e1 = fold (\<lambda>a. pause (audio a)) (activeSounds st) e;
          newSoundStates = mark_all False (soundStates st);
          e2 = setItem_audio_state newSoundStates e1
      in (e2, st\<lparr>isPlaying := False, soundStates := newSoundStates\<rparr>)))"

definition play_all_sounds :: "Env \<times> AudioState \<Rightarrow> Env \<times> AudioState" where
  "play_all_sounds = (\<lambda>(e, st).
     (let e1 = fold start_playback (activeSounds st) e;
          newSoundStates = mark_all True (soundStates st);
          e2 = setItem_audio_state newSoundStates e1
      in (e2, st\<lparr>isPlaying := True, soundStates := newSoundStates\<rparr>)))"

subsection \<open>\<^verbatim>\<open>APPLY_MIX\<close>\<close>

text \<open>
  The working variables of the case: \<^verbatim>\<open>newActiveSounds\<close>, \<^verbatim>\<open>newSoundStates\<close> and the
  environment, threaded through the two \<^verbatim>\<open>forEach\<close> loops.
\<close>

type_synonym mix_acc = "ActiveSound list \<times> SoundStates \<times> Env"

definition currentActiveSoundMap :: "AudioState \<Rightarrow> (string \<times> ActiveSound) list" where
  "currentActiveSoundMap st =
     fold (\<lambda>a m. AList.update (sound_id (sound a)) a m) (activeSounds st) []"

definition map_has :: "('k \<times> 'v) list \<Rightarrow> 'k \<Rightarrow> bool" where
  "map_has m k = (map_of m k \<noteq> None)"

definition targetSoundMap :: "(string \<times> real) list \<Rightarrow> (string \<times> (string \<times> real)) list" where
  "targetSoundMap mixSounds =
     fold (\<lambda>(k, v) m. AList.update k (k, v) m) mixSounds []"

definition soundsToRemove :: "AudioState \<Rightarrow> (string \<times> real) list \<Rightarrow> ActiveSound list" where
  "soundsToRemove st mixSounds =
     map snd (filter (\<lambda>(k, a). \<not> map_has (targetSoundMap mixSounds) k)
                (currentActiveSoundMap st))"

definition remove_step :: "ActiveSound \<Rightarrow> mix_acc \<Rightarrow> mix_acc" where
  "remove_step activeSound = (\<lambda>(newActiveSounds, newSoundStates, e).
     (filter (\<lambda>a. sound_id (sound a) \<noteq> sound_id (sound activeSound)) newActiveSounds,
      AList.delete (sound_id (sound activeSound)) newSoundStates,
      set_src (audio activeSound) [] (pause (audio activeSound) e)))"

definition mix_step ::
  "Sound list \<Rightarrow> AudioState \<Rightarrow> (string \<times> real) list \<Rightarrow> string \<times> real \<Rightarrow> mix_acc \<Rightarrow> mix_acc"
where
  "mix_step catalogue st mixSounds = (\<lambda>(k, normalizedVolume) (newActiveSounds, newSoundStates, e).
     if map_has (currentActiveSoundMap st) k then
       (map (\<lambda>a. if has_id k a then a\<lparr>volume := normalizedVolume\<rparr> else a) newActiveSounds,
        AList.update k (spread_volume (map_of newSoundStates k) (normalizedVolume * 100))
          newSoundStates,
        fold (\<lambda>a. if has_id k a
                    then set_volume (audio a) (normalizedVolume * masterVolume st) else id)
          newActiveSounds e)
     else
       (case find (\<lambda>s. fst s = k) mixSounds of
          None \<Rightarrow> (newActiveSounds, newSoundStates, e)
        | Some soundData \<Rightarrow>
            (case find (\<lambda>s. sound_id s = k) catalogue of
               None \<Rightarrow> (newActiveSounds, newSoundStates, e)
             | Some sd \<Rightarrow>
                 (let (h, e1) = createAudioElement sd normalizedVolume (masterVolume st) False e;
                      newSound = \<lparr>sound = sd, audio = h, volume = normalizedVolume\<rparr>
                  in (newActiveSounds @ [newSound],
                      AList.update k
                        \<lparr>ss_volume = normalizedVolume * 100,
                         ss_isPlaying = Some (isPlaying st)\<rparr> newSoundStates,
                      if isPlaying st then play h e1 else e1)))))"

definition apply_mix :: "Sound list \<Rightarrow> SoundMix \<Rightarrow> Env \<times> AudioState \<Rightarrow> Env \<times> AudioState" where
  "apply_mix catalogue mix = (\<lambda>(e, st).
     (let mixSounds = mix_sounds mix;
          removed = fold remove_step (soundsToRemove st mixSounds)
                      (activeSounds st, soundStates st, e);
          (newActiveSounds, newSoundStates, e1) =
             fold (mix_step catalogue st mixSounds) mixSounds removed;
          e2 = setItem_audio_state newSoundStates e1
      in (e2, st\<lparr>activeSounds := newActiveSounds, soundStates := newSoundStates\<rparr>)))"

subsection \<open>\<^verbatim>\<open>audioReducer\<close>\<close>

fun audioReducer ::
  "Sound list \<Rightarrow> real \<Rightarrow> Env \<times> AudioState \<Rightarrow> AudioAction \<Rightarrow> Env \<times> AudioState"
where
  "audioReducer catalogue now w (TOGGLE_SOUND sd) = toggle_sound sd w"
| "audioReducer catalogue now w (SET_VOLUME soundId vol) = set_volume_for soundId vol w"
| "audioReducer catalogue now w (SET_MASTER_VOLUME vol) = set_master_volume vol w"
| "audioReducer catalogue now w TOGGLE_PLAY_PAUSE = toggle_play_pause w"
| "audioReducer catalogue now w (SET_TIMER t) = (fst w, set_timer now t (snd w))"
| "audioReducer catalogue now w CANCEL_TIMER = (fst w, cancel_timer (snd w))"
| "audioReducer catalogue now w (UPDATE_TIMER r) = (fst w, (snd w)\<lparr>timeRemaining := r\<rparr>)"
| "audioReducer catalogue now w PAUSE_ALL_SOUNDS = pause_all_sounds w"
| "audioReducer catalogue now w PLAY_ALL_SOUNDS = play_all_sounds w"
| "audioReducer catalogue now w (APPLY_MIX mix) = apply_mix catalogue mix w"
| "audioReducer catalogue now w (INITIALIZE_STATE savedState) =
     (fst w, (snd w)\<lparr>soundStates := savedState\<rparr>)"
| "audioReducer catalogue now w (SAVE_CUSTOM_MIX mix) = w"

section \<open>The class \<^verbatim>\<open>AudioStateManager\<close>\<close>

text \<open>
  The listeners are represented by what they receive: \<open>delivered\<close> is the sequence of
  snapshots passed to the subscribers, oldest first.
\<close>

record Manager =
  env :: Env
  state :: AudioState
  timerInterval :: "nat option"
  customMixes :: "SoundMix list"
  delivered :: "AudioState list"

definition notify :: "Manager \<Rightarrow> Manager" where
  "notify m = m\<lparr>delivered := delivered m @ [state m]\<rparr>"

definition stopTimer :: "Manager \<Rightarrow> Manager" where
  "stopTimer m =
     (case timerInterval m of
        Some i \<Rightarrow> m\<lparr>env := clearInterval i (env m), timerInterval := None\<rparr>
      | None \<Rightarrow> m)"

text \<open>
  \<^verbatim>\<open>startTimer\<close> registers the tick callback; the callback's body is \<open>tick\<close> below.
\<close>

definition startTimer :: "Manager \<Rightarrow> Manager" where
  "startTimer m =
     (let e1 = (case timerInterval m of Some i \<Rightarrow> clearInterval i (env m) | None \<Rightarrow> env m);
          (i', e2) = setInterval e1
      in m\<lparr>env := e2, timerInterval := Some i'\<rparr>)"

definition saveCustomMixesToStorage :: "Manager \<Rightarrow> Manager" where
  "saveCustomMixesToStorage m =
     m\<lparr>env := (env m)\<lparr>stored_custom_mixes := Some (customMixes m)\<rparr>\<rparr>"

definition store_custom_mix :: "SoundMix \<Rightarrow> Manager \<Rightarrow> Manager" where
  "store_custom_mix mix m =
     saveCustomMixesToStorage
       (case findIndex (\<lambda>x. mix_name x = mix_name mix) (customMixes m) of
          Some existingIndex \<Rightarrow> m\<lparr>customMixes := (customMixes m)[existingIndex := mix]\<rparr>
        | None \<Rightarrow> m\<lparr>customMixes := customMixes m @ [mix]\<rparr>)"

definition dispatch :: "Sound list \<Rightarrow> real \<Rightarrow> AudioAction \<Rightarrow> Manager \<Rightarrow> Manager" where
  "dispatch catalogue now action m =
     (let (e, st) = audioReducer catalogue now (env m, state m) action;
          m1 = m\<lparr>env := e, state := st\<rparr>;
          m2 = (case action of
                  SET_TIMER t \<Rightarrow> if t \<noteq> Endless then startTimer m1 else m1
                | CANCEL_TIMER \<Rightarrow> stopTimer m1
                | SAVE_CUSTOM_MIX mix \<Rightarrow> store_custom_mix mix m1
                | _ \<Rightarrow> m1)
      in notify m2)"

definition toggleSound :: "Sound list \<Rightarrow> real \<Rightarrow> Sound \<Rightarrow> Manager \<Rightarrow> Manager" where
  "toggleSound catalogue now sd = dispatch catalogue now (TOGGLE_SOUND sd)"

definition setVolumeForSound :: "Sound list \<Rightarrow> real \<Rightarrow> string \<Rightarrow> real \<Rightarrow> Manager \<Rightarrow> Manager" where
  "setVolumeForSound catalogue now soundId vol = dispatch catalogue now (SET_VOLUME soundId vol)"

definition setMasterVolume :: "Sound list \<Rightarrow> real \<Rightarrow> real \<Rightarrow> Manager \<Rightarrow> Manager" where
  "setMasterVolume catalogue now vol = dispatch catalogue now (SET_MASTER_VOLUME vol)"

definition setTimer :: "Sound list \<Rightarrow> real \<Rightarrow> TimerOption \<Rightarrow> Manager \<Rightarrow> Manager" where
  "setTimer catalogue now t = dispatch catalogue now (SET_TIMER t)"

definition cancelTimer :: "Sound list \<Rightarrow> real \<Rightarrow> Manager \<Rightarrow> Manager" where
  "cancelTimer catalogue now = dispatch catalogue now CANCEL_TIMER"

definition applyMix :: "Sound list \<Rightarrow> real \<Rightarrow> SoundMix \<Rightarrow> Manager \<Rightarrow> Manager" where
  "applyMix catalogue now mix = dispatch catalogue now (APPLY_MIX mix)"

text \<open>
  The body of the interval callback of \<^verbatim>\<open>startTimer\<close>, run at time \<open>now\<close>. A missing
  (or zero) \<^verbatim>\<open>timerEndTime\<close> is falsy.
\<close>

definition tick :: "Sound list \<Rightarrow> real \<Rightarrow> Manager \<Rightarrow> Manager" where
  "tick catalogue now m =
     (case timerEndTime (state m) of
        None \<Rightarrow> stopTimer m
      | Some endTime \<Rightarrow>
          if endTime = 0 then stopTimer m
          else
            (let remaining = endTime - now
             in if remaining \<le> 0
                then stopTimer
                       (dispatch catalogue now CANCEL_TIMER
                         (dispatch catalogue now PAUSE_ALL_SOUNDS
                           (dispatch catalogue now (UPDATE_TIMER (Some 0)) m)))
                else dispatch catalogue now (UPDATE_TIMER (Some remaining)) m))"

text \<open>\<^verbatim>\<open>loadSavedState\<close>, \<^verbatim>\<open>loadCustomMixes\<close>, \<^verbatim>\<open>startTimerIfNeeded\<close> and the constructor.\<close>

definition restoredState :: "SoundStates \<Rightarrow> SoundStates" where
  "restoredState parsedState =
     fold (\<lambda>(key, s) acc.
             AList.update key \<lparr>ss_volume = ss_volume s, ss_isPlaying = Some False\<rparr> acc)
       parsedState []"

definition reactivate :: "Sound list \<Rightarrow> real \<Rightarrow> string \<times> SoundState \<Rightarrow> Manager \<Rightarrow> Manager" where
  "reactivate catalogue now = (\<lambda>(soundId, s) m.
     (case find (\<lambda>x. sound_id x = soundId) catalogue of
        Some sd \<Rightarrow> if ss_volume s > 0 then toggleSound catalogue now sd m else m
      | None \<Rightarrow> m))"

definition loadSavedState :: "Sound list \<Rightarrow> real \<Rightarrow> Manager \<Rightarrow> Manager" where
  "loadSavedState catalogue now m =
     (case stored_audio_state (env m) of
        None \<Rightarrow> m
      | Some Malformed \<Rightarrow> m
      | Some (Parsed parsedState) \<Rightarrow>
          (let m1 = dispatch catalogue now (INITIALIZE_STATE (restoredState parsedState)) m;
               m2 = m1\<lparr>state := (state m1)\<lparr>isPlaying := False\<rparr>\<rparr>;
               m3 = fold (reactivate catalogue now) parsedState m2;
               m4 = m3\<lparr>state := (state m3)\<lparr>isPlaying := False\<rparr>\<rparr>
           in notify m4))"

definition loadCustomMixes :: "Manager \<Rightarrow> Manager" where
  "loadCustomMixes m =
     (case stored_custom_mixes (env m) of
        None \<Rightarrow> m
      | Some savedMixes \<Rightarrow> m\<lparr>customMixes := savedMixes\<rparr>)"

definition startTimerIfNeeded :: "Manager \<Rightarrow> Manager" where
  "startTimerIfNeeded m =
     (case timerEndTime (state m) of
        None \<Rightarrow> m
      | Some endTime \<Rightarrow> if endTime \<noteq> 0 then startTimer m else m)"

definition new_AudioStateManager :: "Sound list \<Rightarrow> real \<Rightarrow> Env \<Rightarrow> Manager" where
  "new_AudioStateManager catalogue now e =
     startTimerIfNeeded
       (loadCustomMixes
         (loadSavedState catalogue now
           \<lparr>env = e, state = initialAudioState, timerInterval = None, customMixes = [],
            delivered = []\<rparr>))"

section \<open>Crossfade looping\<close>

fun str_includes :: "string \<Rightarrow> string \<Rightarrow> bool" where
  \<comment> \<open>\<^verbatim>\<open>String.prototype.includes\<close>\<close>
  "str_includes [] needle = (needle = [])"
| "str_includes (c # cs) needle =
     (take (length needle) (c # cs) = needle \<or> str_includes cs needle)"

definition paused_of :: "nat \<Rightarrow> Env \<Rightarrow> bool" where
  "paused_of h e = (h < length (audios e) \<and> el_paused (audios e ! h))"

definition volume_of :: "nat \<Rightarrow> Env \<Rightarrow> real" where
  "volume_of h e = (if h < length (audios e) then el_volume (audios e ! h) else 0)"

text \<open>
  The effect of the mapping function of \<^verbatim>\<open>handleCrossfade\<close> on the incoming element:
  it is made to follow the current \<^verbatim>\<open>isPlaying\<close>.
\<close>

definition adopt :: "bool \<Rightarrow> nat \<Rightarrow> Env \<Rightarrow> Env" where
  "adopt playing newAudio e =
     (if playing then (if paused_of newAudio e then play newAudio e else e)
      else pause newAudio e)"

definition replace_audio ::
  "(ActiveSound \<Rightarrow> bool) \<Rightarrow> nat \<Rightarrow> Manager \<Rightarrow> Manager" where
  "replace_audio P newAudio m =
     notify
       (m\<lparr>env := fold (\<lambda>a. if P a then adopt (isPlaying (state m)) newAudio else id)
                    (activeSounds (state m)) (env m),
          state := (state m)\<lparr>activeSounds :=
                      map (\<lambda>a. if P a then a\<lparr>audio := newAudio\<rparr> else a)
                        (activeSounds (state m))\<rparr>\<rparr>)"

definition handleCrossfade :: "Sound list \<Rightarrow> nat \<Rightarrow> nat \<Rightarrow> Manager \<Rightarrow> Manager" where
  "handleCrossfade catalogue oldAudio newAudio m =
     (case find (\<lambda>a. audio a = oldAudio) (activeSounds (state m)) of
        None \<Rightarrow>
          (case find (\<lambda>s. str_includes (src_of newAudio (env m)) (sound_id s)
                          \<or> str_includes (src_of newAudio (env m)) (sound_name s)) catalogue of
             None \<Rightarrow> m
           | Some matchingSound \<Rightarrow>
               (case find (has_id (sound_id matchingSound)) (activeSounds (state m)) of
                  None \<Rightarrow> m
                | Some existingActiveSound \<Rightarrow>
                    replace_audio (has_id (sound_id matchingSound)) newAudio m))
      | Some activeSound \<Rightarrow> replace_audio (\<lambda>a. audio a = oldAudio) newAudio m)"

text \<open>
  The local variables of one crossfade, as the interval callback of
  \<^verbatim>\<open>handleTimeUpdate\<close> closes over them.
\<close>

record Fade =
  fade_audio :: nat
  fade_newAudio :: nat
  isCurrentlyPlaying :: bool
  oldInitialVolume :: real
  targetVolume :: real
  currentStep :: nat
  fadeInterval :: nat

definition fadeSteps :: nat where
  "fadeSteps = 60"

text \<open>
  The \<^verbatim>\<open>timeupdate\<close> handler of element \<open>h\<close>, with the element's \<^verbatim>\<open>duration\<close> (\<open>None\<close>
  when it is NaN or infinite) and \<^verbatim>\<open>currentTime\<close> at the event. It returns the fade it
  started, if any. The later \<^verbatim>\<open>canplaythrough\<close> and retry callbacks only call
  \<^verbatim>\<open>play()\<close> on the new element again.
\<close>

definition handleTimeUpdate :: "nat \<Rightarrow> real option \<Rightarrow> real \<Rightarrow> Env \<Rightarrow> Env \<times> Fade option" where
  "handleTimeUpdate h duration currentTime e =
     (if h \<ge> length (audios e) then (e, None)
      else
        (case el_listener (audios e ! h) of
           None \<Rightarrow> (e, None)
         | Some c \<Rightarrow>
             if el_crossfadeTriggered (audios e ! h) then (e, None)
             else
               (case duration of
                  None \<Rightarrow> (e, None)
                | Some d \<Rightarrow>
                    if d = 0 then (e, None)
                    else if currentTime \<ge> d - 3 then
                      (let e1 = modify h (\<lambda>a. a\<lparr>el_crossfadeTriggered := True\<rparr>) e;
                           (n, e2) = alloc ((new_Audio (audioSrc (cap_sound c)))\<lparr>el_volume := 0\<rparr>) e1;
                           playing = \<not> paused_of h e2;
                           e3 = attachCrossfadeListener n (cap_sound c) (cap_volume c)
                                  (cap_masterVolume c) e2;
                           e4 = (if playing \<and> audioSrc (cap_sound c) \<noteq> [] then play n e3 else e3);
                           (i, e5) = setInterval e4
                       in (e5,
                           Some \<lparr>fade_audio = h, fade_newAudio = n, isCurrentlyPlaying = playing,
                                 oldInitialVolume = volume_of h e4,
                                 targetVolume = cap_volume c * cap_masterVolume c,
                                 currentStep = 0, fadeInterval = i\<rparr>))
                    else (e, None))))"

text \<open>
  One run of the interval callback of a fade. The result is \<open>None\<close> when the callback
  cleared its interval.
\<close>

definition release :: "Fade \<Rightarrow> Env \<Rightarrow> Env" where
  "release f e = set_src (fade_audio f) [] (pause (fade_audio f) (clearInterval (fadeInterval f) e))"

definition fadeStep :: "Sound list \<Rightarrow> Fade \<Rightarrow> Manager \<Rightarrow> Manager \<times> Fade option" where
  "fadeStep catalogue f m =
     (if \<not> isCurrentlyPlaying f \<or> paused_of (fade_audio f) (env m) then
        (handleCrossfade catalogue (fade_audio f) (fade_newAudio f)
           (m\<lparr>env := release f (pause (fade_newAudio f) (env m))\<rparr>), None)
      else
        (let step = Suc (currentStep f);
             progress = real step / real fadeSteps;
             easedProgress = progress * progress;
             newVol = targetVolume f * easedProgress;
             oldVol = oldInitialVolume f * (1 - easedProgress);
             e1 = set_volume (fade_newAudio f) newVol (set_volume (fade_audio f) oldVol (env m))
         in if step \<ge> fadeSteps then
              (handleCrossfade catalogue (fade_audio f) (fade_newAudio f)
                 (m\<lparr>env := set_volume (fade_newAudio f) (targetVolume f) (release f e1)\<rparr>), None)
            else (m\<lparr>env := e1\<rparr>, Some (f\<lparr>currentStep := step\<rparr>))))"

text \<open>
  \<open>n\<close> consecutive runs of the callback with nothing else happening in between; the
  runs after the interval is cleared do not happen.
\<close>

fun fadeRun :: "Sound list \<Rightarrow> nat \<Rightarrow> Fade option \<Rightarrow> Manager \<Rightarrow> Manager \<times> Fade option" where
  "fadeRun catalogue 0 fo m = (m, fo)"
| "fadeRun catalogue (Suc n) None m = (m, None)"
| "fadeRun catalogue (Suc n) (Some f) m =
     (let (m', fo') = fadeStep catalogue f m in fadeRun catalogue n fo' m')"

section \<open>The provider's \<^verbatim>\<open>toggleSound\<close> wrapper\<close>




section \<open>Notions used in the statements\<close>

text \<open>
  The stored entries that startup can re-activate (their id is in the catalogue and their
  volume is positive), the track such an entry gives, and the invariant of the
  re-activation loop of \<^verbatim>\<open>loadSavedState\<close>.
\<close>

definition restorable :: "Sound list \<Rightarrow> SoundStates \<Rightarrow> SoundStates" where
  "restorable catalogue parsedState =
     filter (\<lambda>(k, s). find (\<lambda>x. sound_id x = k) catalogue \<noteq> None \<and> ss_volume s > 0) parsedState"

definition track_of :: "Sound list \<Rightarrow> string \<times> SoundState \<Rightarrow> Sound \<times> real" where
  "track_of catalogue = (\<lambda>(k, s). (the (find (\<lambda>x. sound_id x = k) catalogue), ss_volume s / 100))"

definition view :: "ActiveSound \<Rightarrow> Sound \<times> real" where
  "view a = (sound a, volume a)"

definition restoring :: "Manager \<Rightarrow> SoundStates \<Rightarrow> bool" where
  "restoring m qs \<longleftrightarrow>
     \<not> isPlaying (state m)
     \<and> distinct (map fst qs)
     \<and> (\<forall>(k, s)\<in>set qs. \<not> list_ex (has_id k) (activeSounds (state m))
           \<and> (\<exists>s'. map_of (soundStates (state m)) k = Some s' \<and> ss_volume s' = ss_volume s))
     \<and> list_all (\<lambda>(k, s). ss_isPlaying s = Some False) (soundStates (state m))
     \<and> list_all (\<lambda>a. paused_of (audio a) (env m)) (activeSounds (state m))"

text \<open>
  The ids of a track list and membership of a track's id in a mix; and, to describe the
  result of \<^verbatim>\<open>APPLY_MIX\<close> in closed form, the effect of all volume updates of a mix on
  one track that was active before (\<open>cur\<close> are the ids active before), and the tracks
  created for the entries of a mix (the first new audio element has handle \<open>n\<close>).
\<close>

definition track_ids :: "ActiveSound list \<Rightarrow> string set" where
  "track_ids xs = set (map (sound_id \<circ> sound) xs)"

definition in_mix :: "(string \<times> real) list \<Rightarrow> ActiveSound \<Rightarrow> bool" where
  "in_mix ms a \<longleftrightarrow> sound_id (sound a) \<in> fst ` set ms"

fun retune :: "string set \<Rightarrow> (string \<times> real) list \<Rightarrow> ActiveSound \<Rightarrow> ActiveSound" where
  "retune cur [] a = a"
| "retune cur ((k, v) # ms) a =
     retune cur ms (if k \<in> cur \<and> has_id k a then a\<lparr>volume := v\<rparr> else a)"

fun created :: "Sound list \<Rightarrow> string set \<Rightarrow> nat \<Rightarrow> (string \<times> real) list \<Rightarrow> ActiveSound list" where
  "created catalogue cur n [] = []"
| "created catalogue cur n ((k, v) # ms) =
     (if k \<in> cur then created catalogue cur n ms
      else (case find (\<lambda>s. sound_id s = k) catalogue of
              None \<Rightarrow> created catalogue cur n ms
            | Some sd \<Rightarrow> \<lparr>sound = sd, audio = n, volume = v\<rparr> # created catalogue cur (Suc n) ms))"

text \<open>
  The states the manager can reach: it is constructed, actions are dispatched, the timer
  ticks, audio elements report their position, fades step and swaps are reconciled. A mix
  that is applied is taken to respect the capacity (at most \<^verbatim>\<open>MAX_CONCURRENT_SOUNDS\<close>
  entries with distinct ids): \<^verbatim>\<open>APPLY_MIX\<close> itself does not check it. \<open>tracks_ok\<close> is the
  invariant these states satisfy.
\<close>

fun within_capacity :: "AudioAction \<Rightarrow> bool" where
  "within_capacity (APPLY_MIX mix) =
     (distinct (map fst (mix_sounds mix)) \<and> length (mix_sounds mix) \<le> MAX_CONCURRENT_SOUNDS)"
| "within_capacity action = True"

inductive reachable :: "Sound list \<Rightarrow> Manager \<Rightarrow> bool" for catalogue :: "Sound list" where
  constructed: "reachable catalogue (new_AudioStateManager catalogue now e)"
| dispatched: "reachable catalogue m \<Longrightarrow> within_capacity action \<Longrightarrow>
     reachable catalogue (dispatch catalogue now action m)"
| ticked: "reachable catalogue m \<Longrightarrow> reachable catalogue (tick catalogue now m)"
| time_updated: "reachable catalogue m \<Longrightarrow>
     reachable catalogue (m\<lparr>env := fst (handleTimeUpdate h duration currentTime (env m))\<rparr>)"
| fade_stepped: "reachable catalogue m \<Longrightarrow> reachable catalogue (fst (fadeStep catalogue f m))"
| swapped: "reachable catalogue m \<Longrightarrow>
     reachable catalogue (handleCrossfade catalogue oldAudio newAudio m)"

definition tracks_ok :: "AudioState \<Rightarrow> bool" where
  "tracks_ok st \<longleftrightarrow>
     length (activeSounds st) \<le> MAX_CONCURRENT_SOUNDS
     \<and> distinct (map (sound_id \<circ> sound) (activeSounds st))"

section \<open>Example inputs\<close>

text \<open>
  A sample catalogue of four sounds (the ids \<^verbatim>\<open>rain\<close>, \<^verbatim>\<open>wind\<close> and \<^verbatim>\<open>birds\<close> are ids of
  the catalogue of \<^verbatim>\<open>@/data/sounds\<close>, \<^verbatim>\<open>fire\<close> is not), an environment with nothing
  stored and no audio element, a manager in the initial state, and managers, stored
  settings and mixes built from them.
\<close>

definition rain :: Sound where
  "rain = \<lparr>sound_id = ''rain'', sound_name = ''Rain'', audioSrc = ''/sounds/rain.mp3''\<rparr>"

definition wind :: Sound where
  "wind = \<lparr>sound_id = ''wind'', sound_name = ''Wind'', audioSrc = ''/sounds/wind.mp3''\<rparr>"

definition fire :: Sound where
  "fire = \<lparr>sound_id = ''fire'', sound_name = ''Fire'', audioSrc = ''/sounds/fire.mp3''\<rparr>"

definition birds :: Sound where
  "birds = \<lparr>sound_id = ''birds'', sound_name = ''Birds'', audioSrc = ''/sounds/birds.mp3''\<rparr>"

definition four_sounds :: "Sound list" where
  "four_sounds = [rain, wind, fire, birds]"

definition empty_env :: Env where
  "empty_env = \<lparr>audios = [], stored_audio_state = None, stored_custom_mixes = None,
                 intervals = {}, next_interval = 0\<rparr>"

definition fresh_manager :: Manager where
  "fresh_manager = \<lparr>env = empty_env, state = initialAudioState, timerInterval = None,
                     customMixes = [], delivered = []\<rparr>"


definition three_active :: Manager where
  "three_active = fold (toggleSound four_sounds 0) [rain, wind, fire] fresh_manager"

definition timer_armed :: Manager where
  "timer_armed = setTimer four_sounds 1000 T15min three_active"

definition saved_rain :: Manager where
  "saved_rain = setVolumeForSound four_sounds 0 ''rain'' 0.5 fresh_manager"

definition muted_rain :: Manager where
  "muted_rain = setVolumeForSound four_sounds 0 ''rain'' 0 fresh_manager"

definition playing_manager :: Manager where
  "playing_manager = dispatch four_sounds 0 TOGGLE_PLAY_PAUSE fresh_manager"

definition rain_playing :: Manager where
  "rain_playing =
     setMasterVolume four_sounds 0 0.2 (toggleSound four_sounds 0 rain playing_manager)"

definition near_end :: "Env \<times> Fade option" where
  "near_end = handleTimeUpdate 0 (Some 60) 57.5 (env rain_playing)"

definition crossfaded :: Manager where
  "crossfaded =
     fst (fadeRun four_sounds fadeSteps (snd near_end) (rain_playing\<lparr>env := fst near_end\<rparr>))"

definition stored_env :: "SoundStates \<Rightarrow> Env" where
  "stored_env ps = empty_env\<lparr>stored_audio_state := Some (Parsed ps)\<rparr>"

definition rain_saved :: SoundStates where
  "rain_saved = [(''rain'', \<lparr>ss_volume = 50, ss_isPlaying = Some True\<rparr>)]"

definition four_saved :: SoundStates where
  "four_saved =
     [(''rain'', \<lparr>ss_volume = 50, ss_isPlaying = Some True\<rparr>),
      (''wind'', \<lparr>ss_volume = 30, ss_isPlaying = Some True\<rparr>),
      (''fire'', \<lparr>ss_volume = 80, ss_isPlaying = Some True\<rparr>),
      (''birds'', \<lparr>ss_volume = 40, ss_isPlaying = None\<rparr>)]"

definition rain_wind_mix :: SoundMix where
  "rain_wind_mix = \<lparr>mix_name = ''Storm'', mix_description = ''rain and wind'',
                     mix_sounds = [(''rain'', 0.5), (''wind'', 0.3)]\<rparr>"

definition unknown_mix :: SoundMix where
  "unknown_mix = \<lparr>mix_name = ''Stale'', mix_description = ''an id the catalogue lacks'',
                   mix_sounds = [(''rain'', 0.5), (''no-such-sound'', 0.3)]\<rparr>"

definition rain_birds_mix :: SoundMix where
  "rain_birds_mix = \<lparr>mix_name = ''Morning'', mix_description = ''rain and birds'',
                      mix_sounds = [(''rain'', 0.2), (''birds'', 0.4)]\<rparr>"

section \<open>Basic facts\<close>

lemmas dom_defs = new_Audio_def alloc_def modify_def play_def pause_def set_src_def
  set_volume_def setItem_audio_state_def setInterval_def clearInterval_def
  attachCrossfadeListener_def createAudioElement_def src_of_def paused_of_def volume_of_def

lemmas example_defs = rain_def wind_def fire_def birds_def four_sounds_def empty_env_def
  fresh_manager_def initialAudioState_def

lemma length_splice1: "length xs \<le> n \<Longrightarrow> length (splice1 i xs) \<le> n"
  by (simp add: splice1_def)

lemma findIndex_None: "findIndex P xs = None \<longleftrightarrow> \<not> list_ex P xs"
  by (induction xs) auto

lemma state_toggleSound:
  "state (toggleSound catalogue now sd m) = snd (toggle_sound sd (env m, state m))"
  "env (toggleSound catalogue now sd m) = fst (toggle_sound sd (env m, state m))"
  by (simp_all add: toggleSound_def dispatch_def notify_def split: prod.splits)

lemma three_active_sounds:
  "activeSounds (state three_active) =
     [\<lparr>sound = rain, audio = 0, volume = 1\<rparr>, \<lparr>sound = wind, audio = 1, volume = 1\<rparr>,
      \<lparr>sound = fire, audio = 2, volume = 1\<rparr>]"
  by (simp add: three_active_def toggleSound_def dispatch_def notify_def toggle_sound_def
      saved_volume_or_default_def has_id_def MAX_CONCURRENT_SOUNDS_def dom_defs example_defs Let_def)

lemma length_modify: "length (audios (modify h f e)) = length (audios e)"
  by (simp add: modify_def)

lemma length_pause: "length (audios (pause h e)) = length (audios e)"
  by (simp add: pause_def length_modify)

lemma length_set_volume: "length (audios (set_volume h v e)) = length (audios e)"
  by (simp add: set_volume_def length_modify)

lemma length_set_src: "length (audios (set_src h v e)) = length (audios e)"
  by (simp add: set_src_def length_modify)

lemma length_play: "length (audios (play h e)) = length (audios e)"
  by (simp add: play_def length_modify)

lemma length_clearInterval: "audios (clearInterval i e) = audios e"
  by (simp add: clearInterval_def)

lemma modify_intervals: "intervals (modify h f e) = intervals e"
  by (simp add: modify_def)

lemma paused_of_set_volume: "paused_of h (set_volume h' v e) = paused_of h e"
  by (cases "h = h'") (auto simp: paused_of_def set_volume_def modify_def)

lemma fold_pause_length:
  "length (audios (fold (\<lambda>a. pause (audio a)) xs e)) = length (audios e)"
  by (induction xs arbitrary: e) (simp_all add: length_pause)

lemmas frame_simps = length_modify length_pause length_set_volume length_set_src length_play
  length_clearInterval modify_intervals paused_of_set_volume fold_pause_length

lemma toggle_sound_full:
  assumes "length (activeSounds st) \<ge> MAX_CONCURRENT_SOUNDS"
    and "\<not> list_ex (has_id (sound_id sd)) (activeSounds st)"
  shows "toggle_sound sd (e, st) = (e, st)"
proof -
  have "findIndex (has_id (sound_id sd)) (activeSounds st) = None"
    using assms(2) by (simp add: findIndex_None)
  then show ?thesis using assms(1) by (simp add: toggle_sound_def)
qed

lemma toggle_sound_on:
  assumes "\<not> list_ex (has_id (sound_id sd)) (activeSounds st)"
    and "length (activeSounds st) < MAX_CONCURRENT_SOUNDS"
  shows "snd (toggle_sound sd (e, st)) =
           st\<lparr>activeSounds := activeSounds st @
                  [\<lparr>sound = sd, audio = length (audios e),
                    volume = saved_volume_or_default (map_of (soundStates st) (sound_id sd))\<rparr>],
              soundStates :=
                AList.update (sound_id sd)
                  \<lparr>ss_volume = saved_volume_or_default (map_of (soundStates st) (sound_id sd)) * 100,
                   ss_isPlaying = Some (isPlaying st)\<rparr> (soundStates st)\<rparr>"
proof -
  have "findIndex (has_id (sound_id sd)) (activeSounds st) = None"
    using assms(1) by (simp add: findIndex_None)
  then show ?thesis
    using assms(2)
    by (simp add: toggle_sound_def Let_def createAudioElement_def alloc_def split: prod.splits)
qed

lemma find_sound_id: "find (\<lambda>x. sound_id x = k) catalogue = Some sd \<Longrightarrow> sound_id sd = k"
  by (induction catalogue) (auto split: if_splits)

lemma find_self:
  "find (\<lambda>s. sound_id s = k) catalogue = Some sd \<Longrightarrow>
   find (\<lambda>s. sound_id s = sound_id sd) catalogue = Some sd"
  by (frule find_sound_id) simp

lemma setTimer_frame:
  "activeSounds (state (setTimer catalogue now t m)) = activeSounds (state m)"
  "audios (env (setTimer catalogue now t m)) = audios (env m)"
  "t \<noteq> Endless \<Longrightarrow> timerEndTime (state (setTimer catalogue now t m)) = Some (now + minutes_of t * 60 * 1000)"
  "t \<noteq> Endless \<Longrightarrow> timerInterval (setTimer catalogue now t m) \<noteq> None"
  by (simp_all add: setTimer_def dispatch_def notify_def startTimer_def set_timer_def Let_def
      setInterval_def clearInterval_def split: prod.splits option.splits)

lemma three_active_audios: "length (audios (env three_active)) = 3"
  by (simp add: three_active_def toggleSound_def dispatch_def notify_def toggle_sound_def
      saved_volume_or_default_def has_id_def MAX_CONCURRENT_SOUNDS_def dom_defs example_defs Let_def)

lemma three_active_soundStates:
  "soundStates (state three_active) =
     [(''rain'', \<lparr>ss_volume = 100, ss_isPlaying = Some False\<rparr>),
      (''wind'', \<lparr>ss_volume = 100, ss_isPlaying = Some False\<rparr>),
      (''fire'', \<lparr>ss_volume = 100, ss_isPlaying = Some False\<rparr>)]"
  by (simp add: three_active_def toggleSound_def dispatch_def notify_def toggle_sound_def
      saved_volume_or_default_def has_id_def MAX_CONCURRENT_SOUNDS_def dom_defs example_defs Let_def)

section \<open>C1: the capacity of the track list\<close>

lemma toggle_sound_length:
  assumes "length (activeSounds st) \<le> MAX_CONCURRENT_SOUNDS"
  shows "length (activeSounds (snd (toggle_sound sd (e, st)))) \<le> MAX_CONCURRENT_SOUNDS"
  using assms
  by (auto simp: toggle_sound_def Let_def length_splice1 split: option.splits prod.splits)

lemma toggles_length:
  "length (activeSounds (state m)) \<le> MAX_CONCURRENT_SOUNDS \<Longrightarrow>
   length (activeSounds (state (fold (toggleSound catalogue now) sds m)))
     \<le> MAX_CONCURRENT_SOUNDS"
proof (induction sds arbitrary: m)
  case Nil
  then show ?case by simp
next
  case (Cons sd sds)
  have "length (activeSounds (state (toggleSound catalogue now sd m))) \<le> MAX_CONCURRENT_SOUNDS"
    using Cons.prems by (simp add: state_toggleSound toggle_sound_length)
  then show ?case using Cons.IH by simp
qed

text \<open>
  Claim C1. Start from any manager whose track list has at most three entries: the
  initial state has none, and every reachable state is such a state (\<open>reachable_tracks_ok\<close>
  below). After any sequence \<open>sds\<close> of \<^verbatim>\<open>toggleSound\<close> calls the list
  still has at most three entries; every prefix of a sequence is a sequence, so the bound
  holds at every moment. And when exactly three tracks are active, toggling a sound that
  is not among them changes nothing: the reducer returns the state and the environment
  (audio elements, storage) it was given.
\<close>

theorem toggle_never_exceeds_three:
  assumes "length (activeSounds (state m)) \<le> MAX_CONCURRENT_SOUNDS"
  shows "length (activeSounds (state (fold (toggleSound catalogue now) sds m))) \<le> 3
       \<and> (length (activeSounds (state m)) = 3
            \<and> \<not> list_ex (has_id (sound_id sd)) (activeSounds (state m))
          \<longrightarrow> audioReducer catalogue now (env m, state m) (TOGGLE_SOUND sd) = (env m, state m)
              \<and> state (toggleSound catalogue now sd m) = state m
              \<and> env (toggleSound catalogue now sd m) = env m)"
  using toggles_length [OF assms, of catalogue now sds]
        toggle_sound_full [of "state m" sd "env m"]
  by (simp add: state_toggleSound MAX_CONCURRENT_SOUNDS_def)

theorem toggle_never_exceeds_three_witness:
  "length (activeSounds (state three_active)) \<le> MAX_CONCURRENT_SOUNDS
   \<and> length (activeSounds (state three_active)) = 3
   \<and> \<not> list_ex (has_id (sound_id birds)) (activeSounds (state three_active))
   \<and> length (activeSounds (state
        (fold (toggleSound four_sounds 0) [birds, rain, birds, wind] three_active))) \<le> 3
   \<and> audioReducer four_sounds 0 (env three_active, state three_active) (TOGGLE_SOUND birds)
       = (env three_active, state three_active)
   \<and> state (toggleSound four_sounds 0 birds three_active) = state three_active
   \<and> env (toggleSound four_sounds 0 birds three_active) = env three_active"
proof -
  have h: "length (activeSounds (state three_active)) \<le> MAX_CONCURRENT_SOUNDS"
    by (simp add: three_active_sounds MAX_CONCURRENT_SOUNDS_def)
  show ?thesis
    using h toggle_never_exceeds_three [OF h, of four_sounds 0 "[birds, rain, birds, wind]" birds]
    by (simp add: three_active_sounds has_id_def example_defs)
qed

section \<open>C2: arming the timer and its expiry\<close>

lemma paused_of_pause:
  "paused_of h (pause h' e) = (if h = h' then h < length (audios e) else paused_of h e)"
  by (auto simp: paused_of_def pause_def modify_def)

lemma paused_of_pause_keeps: "paused_of h e \<Longrightarrow> paused_of h (pause h' e)"
  by (auto simp: paused_of_def pause_def modify_def nth_list_update)

lemma fold_pause_keeps:
  "paused_of h e \<Longrightarrow> paused_of h (fold (\<lambda>a. pause (audio a)) xs e)"
  by (induction xs arbitrary: e) (simp_all add: paused_of_pause_keeps)

lemma fold_pause_all:
  "\<forall>a\<in>set xs. audio a < length (audios e) \<Longrightarrow>
   \<forall>a\<in>set xs. paused_of (audio a) (fold (\<lambda>a. pause (audio a)) xs e)"
proof (induction xs arbitrary: e)
  case Nil
  then show ?case by simp
next
  case (Cons x xs)
  have "paused_of (audio x) (pause (audio x) e)"
    using Cons.prems by (simp add: paused_of_pause)
  then have "paused_of (audio x) (fold (\<lambda>a. pause (audio a)) xs (pause (audio x) e))"
    by (rule fold_pause_keeps)
  moreover have "\<forall>a\<in>set xs. paused_of (audio a) (fold (\<lambda>a. pause (audio a)) xs (pause (audio x) e))"
    using Cons.prems by (intro Cons.IH) (simp add: length_pause)
  ultimately show ?case by simp
qed

lemma tick_expired:
  assumes "timerEndTime (state m) = Some d" "d \<noteq> 0" "d \<le> now"
  shows "tick catalogue now m =
     stopTimer (dispatch catalogue now CANCEL_TIMER
       (dispatch catalogue now PAUSE_ALL_SOUNDS
         (dispatch catalogue now (UPDATE_TIMER (Some 0)) m)))"
  using assms by (simp add: tick_def)

text \<open>
  Claim C2. \<^verbatim>\<open>setTimer("15min")\<close> at time \<open>t0\<close> leaves \<^verbatim>\<open>timeRemaining = 900000\<close> and
  \<^verbatim>\<open>timerEndTime = t0 + 900000\<close>, and a tick interval registered. When the tick callback runs at a time \<open>now\<close> at or
  after the deadline \<open>d\<close> of the state (a deadline that is set, and truthy), the
  subscribers receive exactly three further snapshots, in this order: the state with
  remaining time 0; that state with \<^verbatim>\<open>isPlaying = false\<close> and every saved flag false;
  that state with the timer reset to endless and remaining time and deadline cleared,
  which is the final state. Afterwards every active track's element is paused, the
  manager holds no interval and the interval it held is cleared. The track list is
  assumed to refer to existing audio elements.
\<close>

theorem set_timer_and_expiry:
  assumes wf: "\<forall>a\<in>set (activeSounds (state m)). audio a < length (audios (env m))"
    and deadline: "timerEndTime (state m) = Some d" "d \<noteq> 0" "d \<le> now"
  shows "timeRemaining (state (setTimer catalogue t0 T15min m0)) = Some 900000
       \<and> timerEndTime (state (setTimer catalogue t0 T15min m0)) = Some (t0 + 900000)
       \<and> timerInterval (setTimer catalogue t0 T15min m0) \<noteq> None
       \<and> (let s1 = (state m)\<lparr>timeRemaining := Some 0\<rparr>;
               s2 = s1\<lparr>isPlaying := False, soundStates := mark_all False (soundStates s1)\<rparr>;
               s3 = s2\<lparr>timer := Endless, timeRemaining := None, timerEndTime := None\<rparr>
           in delivered (tick catalogue now m) = delivered m @ [s1, s2, s3]
              \<and> state (tick catalogue now m) = s3)
       \<and> (\<forall>a\<in>set (activeSounds (state m)). paused_of (audio a) (env (tick catalogue now m)))
       \<and> timerInterval (tick catalogue now m) = None
       \<and> (\<forall>i. timerInterval m = Some i \<longrightarrow> i \<notin> intervals (env (tick catalogue now m)))"
proof -
  have A: "timeRemaining (state (setTimer catalogue t0 T15min m0)) = Some 900000
       \<and> timerEndTime (state (setTimer catalogue t0 T15min m0)) = Some (t0 + 900000)
       \<and> timerInterval (setTimer catalogue t0 T15min m0) \<noteq> None"
    by (simp add: setTimer_def dispatch_def notify_def startTimer_def set_timer_def Let_def
        setInterval_def split: prod.splits)
  have P: "\<forall>a\<in>set (activeSounds (state m)).
     paused_of (audio a) (fold (\<lambda>a. pause (audio a)) (activeSounds (state m)) (env m))"
    using wf by (rule fold_pause_all)
  show ?thesis
    using A P
    by (cases "timerInterval m")
       (auto simp add: tick_expired [OF deadline] dispatch_def notify_def stopTimer_def
        pause_all_sounds_def cancel_timer_def Let_def setItem_audio_state_def clearInterval_def
        paused_of_def)
qed

theorem set_timer_and_expiry_witness:
  "list_all (\<lambda>a. audio a < length (audios (env timer_armed))) (activeSounds (state timer_armed))
   \<and> timerEndTime (state timer_armed) = Some 901000
   \<and> (901000::real) \<noteq> 0 \<and> (901000::real) \<le> 901500
   \<and> timeRemaining (state timer_armed) = Some 900000
   \<and> timerInterval timer_armed \<noteq> None
   \<and> delivered (tick four_sounds 901500 timer_armed) =
       delivered timer_armed @
         [(state timer_armed)\<lparr>timeRemaining := Some 0\<rparr>,
          (state timer_armed)\<lparr>timeRemaining := Some 0, isPlaying := False,
             soundStates := mark_all False (soundStates (state timer_armed))\<rparr>,
          (state timer_armed)\<lparr>isPlaying := False,
             soundStates := mark_all False (soundStates (state timer_armed)),
             timer := Endless, timeRemaining := None, timerEndTime := None\<rparr>]
   \<and> list_all (\<lambda>a. paused_of (audio a) (env (tick four_sounds 901500 timer_armed)))
         (activeSounds (state timer_armed))
   \<and> timerInterval (tick four_sounds 901500 timer_armed) = None"
proof -
  have wf: "\<forall>a\<in>set (activeSounds (state timer_armed)). audio a < length (audios (env timer_armed))"
    by (simp add: timer_armed_def setTimer_frame three_active_sounds three_active_audios)
  have d: "timerEndTime (state timer_armed) = Some 901000"
    by (simp add: timer_armed_def setTimer_frame)
  have nz: "(901000::real) \<noteq> 0" and le: "(901000::real) \<le> 901500" by simp_all
  have i: "timerInterval timer_armed \<noteq> None"
    by (simp add: timer_armed_def setTimer_frame)
  show ?thesis
    using wf d i set_timer_and_expiry [OF wf d nz le, of four_sounds 1000 three_active]
    by (simp add: Let_def timer_armed_def list_all_iff)
qed

section \<open>C8: \<^verbatim>\<open>CANCEL_TIMER\<close> and \<^verbatim>\<open>SET_TIMER\<close> with the endless option\<close>

text \<open>
  Claim C8 says that cancelling the timer and setting it to endless agree on the state
  and on the coordinator, with no tick loop left running. On a manager whose timer is
  armed the second part fails: after \<^verbatim>\<open>setTimer("endless")\<close> the manager still holds
  its interval and the interval is still registered, after \<^verbatim>\<open>cancelTimer()\<close> neither
  is the case.
\<close>

theorem cancel_vs_set_endless_counterexample:
  "timerInterval (setTimer four_sounds 2000 Endless timer_armed) = Some 1
   \<and> 1 \<in> intervals (env (setTimer four_sounds 2000 Endless timer_armed))
   \<and> timerInterval (cancelTimer four_sounds 2000 timer_armed) = None
   \<and> intervals (env (cancelTimer four_sounds 2000 timer_armed)) = {}"
  by (simp add: timer_armed_def setTimer_def cancelTimer_def dispatch_def set_timer_def
        cancel_timer_def stopTimer_def startTimer_def notify_def clearInterval_def setInterval_def
        three_active_def toggleSound_def toggle_sound_def saved_volume_or_default_def
        has_id_def MAX_CONCURRENT_SOUNDS_def dom_defs example_defs Let_def)

text \<open>
  Claim C8 as amended. For every manager, \<^verbatim>\<open>setTimer("endless")\<close> and
  \<^verbatim>\<open>cancelTimer()\<close> give the same \<^verbatim>\<open>AudioState\<close>: the old one with the timer endless and
  remaining time and deadline cleared. \<^verbatim>\<open>cancelTimer()\<close> clears the manager's interval
  at once. \<^verbatim>\<open>setTimer("endless")\<close> leaves the interval and the environment as they
  were; the next run of the tick callback, at any time \<open>later\<close>, stops the loop and
  changes nothing else, so that after it the manager is the one \<^verbatim>\<open>cancelTimer()\<close>
  would have given.
\<close>

theorem cancel_vs_set_endless:
  "state (setTimer catalogue now Endless m) = state (cancelTimer catalogue now m)
   \<and> state (cancelTimer catalogue now m) =
        (state m)\<lparr>timer := Endless, timeRemaining := None, timerEndTime := None\<rparr>
   \<and> timerInterval (cancelTimer catalogue now m) = None
   \<and> intervals (env (cancelTimer catalogue now m)) =
        intervals (env m) - set_option (timerInterval m)
   \<and> timerInterval (setTimer catalogue now Endless m) = timerInterval m
   \<and> env (setTimer catalogue now Endless m) = env m
   \<and> tick catalogue later (setTimer catalogue now Endless m) = cancelTimer catalogue now m"
  by (cases "timerInterval m")
     (simp_all add: setTimer_def cancelTimer_def dispatch_def set_timer_def cancel_timer_def
        tick_def stopTimer_def notify_def clearInterval_def)

theorem cancel_vs_set_endless_witness:
  "timerInterval (cancelTimer four_sounds 2000 timer_armed) = None
   \<and> timerInterval (setTimer four_sounds 2000 Endless timer_armed) = timerInterval timer_armed
   \<and> timerInterval timer_armed \<noteq> None
   \<and> tick four_sounds 3000 (setTimer four_sounds 2000 Endless timer_armed)
        = cancelTimer four_sounds 2000 timer_armed"
  using cancel_vs_set_endless [of four_sounds 2000 timer_armed 3000]
  by (simp add: timer_armed_def setTimer_frame)

section \<open>C10: \<^verbatim>\<open>SET_VOLUME\<close> for a sound that is not active\<close>

lemma map_unmatched: "\<not> list_ex P xs \<Longrightarrow> map (\<lambda>a. if P a then f a else a) xs = xs"
  by (induction xs) auto

lemma fold_unmatched: "\<not> list_ex P xs \<Longrightarrow> fold (\<lambda>a. if P a then g a else id) xs e = e"
  by (induction xs) auto

lemma set_volume_for_inactive:
  assumes "\<not> list_ex (has_id k) (activeSounds st)"
  shows "set_volume_for k v (e, st) =
     (setItem_audio_state
        (AList.update k (spread_volume (map_of (soundStates st) k) (v * 100)) (soundStates st)) e,
      st\<lparr>soundStates :=
           AList.update k (spread_volume (map_of (soundStates st) k) (v * 100)) (soundStates st)\<rparr>)"
  using assms by (simp add: set_volume_for_def Let_def map_unmatched fold_unmatched)

text \<open>
  Claim C10. Let no active track have id \<open>k\<close>. Then \<^verbatim>\<open>setVolumeForSound(k, v)\<close> leaves the
  track list and the audio elements as they were, and \<^verbatim>\<open>soundStates\<close> gets an entry for
  \<open>k\<close> with volume \<open>v * 100\<close>; the entry has the playing flag of the entry it
  overwrites, and no playing flag at all when there was none. The other entries are
  unchanged, the new settings are what is written to storage, and they hold the id
  \<open>k\<close>, which is not the id of any active track.
\<close>

theorem set_volume_of_inactive_sound:
  assumes "\<not> list_ex (has_id k) (activeSounds (state m))"
  shows "activeSounds (state (setVolumeForSound catalogue now k v m)) = activeSounds (state m)
       \<and> audios (env (setVolumeForSound catalogue now k v m)) = audios (env m)
       \<and> map_of (soundStates (state (setVolumeForSound catalogue now k v m))) k =
           Some \<lparr>ss_volume = v * 100,
                 ss_isPlaying = (case map_of (soundStates (state m)) k of
                                   None \<Rightarrow> None | Some s \<Rightarrow> ss_isPlaying s)\<rparr>
       \<and> (\<forall>k'. k' \<noteq> k \<longrightarrow>
             map_of (soundStates (state (setVolumeForSound catalogue now k v m))) k' =
             map_of (soundStates (state m)) k')
       \<and> stored_audio_state (env (setVolumeForSound catalogue now k v m)) =
           Some (Parsed (soundStates (state (setVolumeForSound catalogue now k v m))))
       \<and> k \<in> fst ` set (soundStates (state (setVolumeForSound catalogue now k v m)))
       \<and> k \<notin> set (map (sound_id \<circ> sound) (activeSounds (state (setVolumeForSound catalogue now k v m))))"
proof -
  have ids: "k \<notin> set (map (sound_id \<circ> sound) (activeSounds (state m)))"
    using assms by (auto simp: list_ex_iff has_id_def)
  show ?thesis
    using ids
    by (auto simp add: setVolumeForSound_def dispatch_def notify_def
        set_volume_for_inactive [OF assms] setItem_audio_state_def update_conv' dom_update
        spread_volume_def split: option.splits)
qed

theorem set_volume_of_inactive_sound_witness:
  "\<not> list_ex (has_id ''birds'') (activeSounds (state three_active))
   \<and> activeSounds (state (setVolumeForSound four_sounds 0 ''birds'' 0.5 three_active))
       = activeSounds (state three_active)
   \<and> map_of (soundStates (state (setVolumeForSound four_sounds 0 ''birds'' 0.5 three_active)))
        ''birds'' = Some \<lparr>ss_volume = 50, ss_isPlaying = None\<rparr>
   \<and> ''birds'' \<notin> set (map (sound_id \<circ> sound)
        (activeSounds (state (setVolumeForSound four_sounds 0 ''birds'' 0.5 three_active))))"
proof -
  have h: "\<not> list_ex (has_id ''birds'') (activeSounds (state three_active))"
    by (simp add: three_active_sounds has_id_def example_defs)
  show ?thesis
    using h set_volume_of_inactive_sound [OF h, of four_sounds 0 "0.5"]
    by (auto simp add: three_active_soundStates)
qed

section \<open>C5: toggling a sound on and off again\<close>

lemma findIndex_snoc:
  "\<not> list_ex P xs \<Longrightarrow> P x \<Longrightarrow> findIndex P (xs @ [x]) = Some (length xs)"
  by (induction xs) auto

lemma splice1_snoc: "splice1 (length xs) (xs @ [x]) = xs"
  by (simp add: splice1_def)

lemma toggle_sound_off:
  assumes "\<not> list_ex (has_id k) xs" and "has_id k a" and "k = sound_id sd"
  shows "snd (toggle_sound sd (e, st\<lparr>activeSounds := xs @ [a], soundStates := ss\<rparr>)) =
           st\<lparr>activeSounds := xs, soundStates := AList.delete k ss,
              isPlaying := (if xs = [] then False else isPlaying st)\<rparr>"
  using assms by (simp add: toggle_sound_def Let_def findIndex_snoc splice1_snoc)

text \<open>
  Claim C5 says that toggling a sound on and then off restores \<^verbatim>\<open>activeSounds\<close> and
  \<^verbatim>\<open>soundStates\<close>. It fails for a sound that is not active but has saved settings,
  as \<^verbatim>\<open>rain\<close> has after \<^verbatim>\<open>setVolumeForSound("rain", 0.5)\<close> on the initial state:
  toggling off deletes the entry that was there before the pair of toggles.
\<close>

theorem toggle_on_then_off_counterexample:
  "\<not> list_ex (has_id (sound_id rain)) (activeSounds (state saved_rain))
   \<and> soundStates (state saved_rain) = [(''rain'', \<lparr>ss_volume = 50, ss_isPlaying = None\<rparr>)]
   \<and> activeSounds (state (toggleSound four_sounds 0 rain saved_rain))
        = [\<lparr>sound = rain, audio = 0, volume = 0.5\<rparr>]
   \<and> soundStates (state (toggleSound four_sounds 0 rain (toggleSound four_sounds 0 rain saved_rain)))
        = []"
  by (simp add: saved_rain_def setVolumeForSound_def set_volume_for_def spread_volume_def
      toggleSound_def dispatch_def notify_def toggle_sound_def splice1_def
      saved_volume_or_default_def
      has_id_def MAX_CONCURRENT_SOUNDS_def dom_defs example_defs Let_def)

text \<open>
  Claim C5 as amended. For a sound that is not active, toggling it on and then off
  restores \<^verbatim>\<open>activeSounds\<close>. Below the capacity the resulting \<^verbatim>\<open>soundStates\<close> are the
  former ones without the entry of the sound (at capacity both toggles are rejected and
  nothing changes); so \<^verbatim>\<open>soundStates\<close> is restored whenever the sound had no saved
  entry before.
\<close>

theorem toggle_on_then_off:
  assumes "\<not> list_ex (has_id (sound_id sd)) (activeSounds (state m))"
  shows "activeSounds (state (toggleSound catalogue now sd (toggleSound catalogue now sd m)))
           = activeSounds (state m)
       \<and> soundStates (state (toggleSound catalogue now sd (toggleSound catalogue now sd m)))
           = (if length (activeSounds (state m)) \<ge> MAX_CONCURRENT_SOUNDS
              then soundStates (state m)
              else AList.delete (sound_id sd) (soundStates (state m)))
       \<and> (sound_id sd \<notin> fst ` set (soundStates (state m)) \<longrightarrow>
            soundStates (state (toggleSound catalogue now sd (toggleSound catalogue now sd m)))
              = soundStates (state m))"
proof (cases "length (activeSounds (state m)) \<ge> MAX_CONCURRENT_SOUNDS")
  case True
  have "toggle_sound sd (env m, state m) = (env m, state m)"
    using True assms by (rule toggle_sound_full)
  then show ?thesis
    using True by (simp add: state_toggleSound)
next
  case False
  then have lt: "length (activeSounds (state m)) < MAX_CONCURRENT_SOUNDS" by simp
  let ?a = "\<lparr>sound = sd, audio = length (audios (env m)),
              volume = saved_volume_or_default (map_of (soundStates (state m)) (sound_id sd))\<rparr>"
  let ?v = "\<lparr>ss_volume = saved_volume_or_default (map_of (soundStates (state m)) (sound_id sd)) * 100,
              ss_isPlaying = Some (isPlaying (state m))\<rparr>"
  let ?on = "toggle_sound sd (env m, state m)"
  let ?s1 = "(state m)\<lparr>activeSounds := activeSounds (state m) @ [?a],
                   soundStates := AList.update (sound_id sd) ?v (soundStates (state m))\<rparr>"
  have on: "snd ?on = ?s1"
    using assms lt by (rule toggle_sound_on)
  have off: "snd (toggle_sound sd (fst ?on, ?s1)) =
           (state m)\<lparr>activeSounds := activeSounds (state m),
              soundStates := AList.delete (sound_id sd) (AList.update (sound_id sd) ?v (soundStates (state m))),
              isPlaying := (if activeSounds (state m) = [] then False else isPlaying (state m))\<rparr>"
    using assms by (intro toggle_sound_off) (simp_all add: has_id_def)
  show ?thesis
    using False by (simp add: state_toggleSound on off delete_update_same)
qed

theorem toggle_on_then_off_witness:
  "\<not> list_ex (has_id (sound_id birds)) (activeSounds (state fresh_manager))
   \<and> sound_id birds \<notin> fst ` set (soundStates (state fresh_manager))
   \<and> activeSounds (state (toggleSound four_sounds 0 birds (toggleSound four_sounds 0 birds fresh_manager)))
        = activeSounds (state fresh_manager)
   \<and> soundStates (state (toggleSound four_sounds 0 birds (toggleSound four_sounds 0 birds fresh_manager)))
        = soundStates (state fresh_manager)"
proof -
  have h: "\<not> list_ex (has_id (sound_id birds)) (activeSounds (state fresh_manager))"
    by (simp add: example_defs)
  have n: "sound_id birds \<notin> fst ` set (soundStates (state fresh_manager))"
    by (simp add: example_defs)
  show ?thesis
    using h n toggle_on_then_off [OF h, of four_sounds 0] by simp
qed

section \<open>C9: the volume of a track created by \<^verbatim>\<open>TOGGLE_SOUND\<close>\<close>

text \<open>
  The track that \<^verbatim>\<open>TOGGLE_SOUND\<close> creates below the capacity has the volume
  \<open>saved_volume_or_default\<close> of the saved entry: the saved volume divided by 100 when
  there is an entry whose volume is not zero, and 1 otherwise.
\<close>

lemma toggle_creates_at_saved_volume:
  assumes "\<not> list_ex (has_id (sound_id sd)) (activeSounds (state m))"
    and "length (activeSounds (state m)) < MAX_CONCURRENT_SOUNDS"
  shows "activeSounds (state (toggleSound catalogue now sd m)) =
           activeSounds (state m) @
             [\<lparr>sound = sd, audio = length (audios (env m)),
               volume = (case map_of (soundStates (state m)) (sound_id sd) of
                           None \<Rightarrow> 1
                         | Some s \<Rightarrow> if ss_volume s = 0 then 1 else ss_volume s / 100)\<rparr>]"
  by (simp add: state_toggleSound toggle_sound_on [OF assms] saved_volume_or_default_def
      split: option.splits)

text \<open>
  Claim C9 says that a saved setting is honoured also when its volume is 0. Here the
  settings hold \<^verbatim>\<open>rain\<close> with volume 0 (the state after \<^verbatim>\<open>setVolumeForSound("rain", 0)\<close>
  on the initial state) and \<^verbatim>\<open>rain\<close> is not active; the toggle creates the track at
  volume 1 and overwrites the saved volume with 100.
\<close>

theorem toggle_ignores_saved_zero_volume:
  "map_of (soundStates (state muted_rain)) ''rain'' = Some \<lparr>ss_volume = 0, ss_isPlaying = None\<rparr>
   \<and> activeSounds (state muted_rain) = []
   \<and> activeSounds (state (toggleSound four_sounds 0 rain muted_rain))
        = [\<lparr>sound = rain, audio = 0, volume = 1\<rparr>]
   \<and> soundStates (state (toggleSound four_sounds 0 rain muted_rain))
        = [(''rain'', \<lparr>ss_volume = 100, ss_isPlaying = Some False\<rparr>)]"
  by (simp add: muted_rain_def setVolumeForSound_def set_volume_for_def spread_volume_def
      toggleSound_def dispatch_def notify_def toggle_sound_def
      saved_volume_or_default_def has_id_def MAX_CONCURRENT_SOUNDS_def dom_defs example_defs
      Let_def)

section \<open>C4: how a toggle at capacity is reported\<close>











section \<open>C6: restoring the saved settings at startup\<close>

lemma toggle_sound_on_env:
  assumes "\<not> list_ex (has_id (sound_id sd)) (activeSounds st)"
    and "length (activeSounds st) < MAX_CONCURRENT_SOUNDS"
  shows "audios (fst (toggle_sound sd (e, st))) =
           audios e @
             [\<lparr>el_src = audioSrc sd,
               el_volume = saved_volume_or_default (map_of (soundStates st) (sound_id sd))
                              * masterVolume st,
               el_paused = (\<not> isPlaying st), el_crossfadeTriggered = False,
               el_listener = Some \<lparr>cap_sound = sd,
                  cap_volume = saved_volume_or_default (map_of (soundStates st) (sound_id sd)),
                  cap_masterVolume = masterVolume st\<rparr>\<rparr>]"
proof -
  have "findIndex (has_id (sound_id sd)) (activeSounds st) = None"
    using assms(1) by (simp add: findIndex_None)
  then show ?thesis
    using assms(2)
    by (simp add: toggle_sound_def Let_def dom_defs split: prod.splits)
qed

lemma restoring_tail: "restoring m (q # qs) \<Longrightarrow> restoring m qs"
  by (auto simp: restoring_def)

lemma list_all_update:
  "list_all P ss \<Longrightarrow> P (k, v) \<Longrightarrow> list_all P (AList.update k v ss)"
  by (induction ss) auto

lemma paused_of_append:
  "paused_of h e \<Longrightarrow> audios e' = audios e @ xs \<Longrightarrow> paused_of h e'"
  by (simp add: paused_of_def nth_append)

lemma reactivate_step:
  assumes inv: "restoring m ((k, s) # qs)"
  shows "restoring (reactivate catalogue now (k, s) m) qs
       \<and> map view (activeSounds (state (reactivate catalogue now (k, s) m))) =
           map view (activeSounds (state m)) @
             map (track_of catalogue)
               (take (MAX_CONCURRENT_SOUNDS - length (activeSounds (state m)))
                  (restorable catalogue [(k, s)]))
       \<and> map fst (soundStates (state (reactivate catalogue now (k, s) m))) =
           map fst (soundStates (state m))"
proof (cases "find (\<lambda>x. sound_id x = k) catalogue \<noteq> None \<and> ss_volume s > 0")
  case False
  then have "reactivate catalogue now (k, s) m = m"
    by (auto simp: reactivate_def split: option.splits)
  moreover have "restorable catalogue [(k, s)] = []"
    using False by (auto simp: restorable_def)
  ultimately show ?thesis
    using restoring_tail [OF inv] by simp
next
  case True
  then obtain sd where sd: "find (\<lambda>x. sound_id x = k) catalogue = Some sd" and pos: "ss_volume s > 0"
    by auto
  have id: "sound_id sd = k" using sd by (rule find_sound_id)
  have re: "reactivate catalogue now (k, s) m = toggleSound catalogue now sd m"
    using sd pos by (simp add: reactivate_def)
  have el: "restorable catalogue [(k, s)] = [(k, s)]"
    using True by (simp add: restorable_def)
  have inactive: "\<not> list_ex (has_id (sound_id sd)) (activeSounds (state m))"
    using inv id by (auto simp: restoring_def)
  obtain s' where s': "map_of (soundStates (state m)) k = Some s'" "ss_volume s' = ss_volume s"
    using inv by (auto simp: restoring_def)
  show ?thesis
  proof (cases "length (activeSounds (state m)) < MAX_CONCURRENT_SOUNDS")
    case False
    then have "toggle_sound sd (env m, state m) = (env m, state m)"
      using inactive by (intro toggle_sound_full) simp_all
    then have "state (toggleSound catalogue now sd m) = state m"
      and "env (toggleSound catalogue now sd m) = env m"
      by (simp_all add: state_toggleSound)
    then show ?thesis
      using False restoring_tail [OF inv] by (simp add: re restoring_def)
  next
    case lt: True
    let ?vol = "saved_volume_or_default (map_of (soundStates (state m)) (sound_id sd))"
    have vol: "?vol = ss_volume s / 100"
      using s' pos by (simp add: id saved_volume_or_default_def)
    have st: "state (toggleSound catalogue now sd m) =
        (state m)\<lparr>activeSounds := activeSounds (state m) @
                  [\<lparr>sound = sd, audio = length (audios (env m)), volume = ?vol\<rparr>],
              soundStates :=
                AList.update (sound_id sd)
                  \<lparr>ss_volume = ?vol * 100, ss_isPlaying = Some (isPlaying (state m))\<rparr>
                  (soundStates (state m))\<rparr>"
      by (simp add: state_toggleSound toggle_sound_on [OF inactive lt])
    have np: "\<not> isPlaying (state m)" using inv by (simp add: restoring_def)
    have en: "audios (env (toggleSound catalogue now sd m)) =
        audios (env m) @
          [\<lparr>el_src = audioSrc sd, el_volume = ?vol * masterVolume (state m),
            el_paused = True, el_crossfadeTriggered = False,
            el_listener = Some \<lparr>cap_sound = sd, cap_volume = ?vol,
               cap_masterVolume = masterVolume (state m)\<rparr>\<rparr>]"
      using np by (simp add: state_toggleSound toggle_sound_on_env [OF inactive lt])
    have keys: "map fst (soundStates (state (toggleSound catalogue now sd m))) =
                map fst (soundStates (state m))"
      using s' by (auto simp: st id update_keys dest: map_of_SomeD intro: rev_image_eqI)
    have views: "map view (activeSounds (state (toggleSound catalogue now sd m))) =
           map view (activeSounds (state m)) @ [(sd, ss_volume s / 100)]"
      by (simp add: st view_def vol)
    have flags: "list_all (\<lambda>(k, s). ss_isPlaying s = Some False)
                   (soundStates (state (toggleSound catalogue now sd m)))"
      using inv np by (simp add: st restoring_def list_all_update)
    have old: "list_all (\<lambda>a. paused_of (audio a) (env (toggleSound catalogue now sd m)))
                 (activeSounds (state m))"
      using inv en by (auto simp: restoring_def list_all_iff intro: paused_of_append)
    have new: "paused_of (length (audios (env m))) (env (toggleSound catalogue now sd m))"
      by (simp add: paused_of_def en)
    have rest: "\<forall>(k', s'')\<in>set qs.
           \<not> list_ex (has_id k') (activeSounds (state (toggleSound catalogue now sd m)))
           \<and> (\<exists>t. map_of (soundStates (state (toggleSound catalogue now sd m))) k' = Some t
                    \<and> ss_volume t = ss_volume s'')"
    proof (clarify)
      fix k' s'' assume mem: "(k', s'') \<in> set qs"
      then have ne: "k' \<noteq> k" using inv by (force simp: restoring_def)
      have "\<not> list_ex (has_id k') (activeSounds (state m))"
        and "\<exists>t. map_of (soundStates (state m)) k' = Some t \<and> ss_volume t = ss_volume s''"
        using inv mem by (auto simp: restoring_def)
      then show "\<not> list_ex (has_id k') (activeSounds (state (toggleSound catalogue now sd m)))
           \<and> (\<exists>t. map_of (soundStates (state (toggleSound catalogue now sd m))) k' = Some t
                    \<and> ss_volume t = ss_volume s'')"
        using ne by (simp add: st id has_id_def update_conv')
    qed
    have "restoring (toggleSound catalogue now sd m) qs"
      unfolding restoring_def
      using inv np rest flags old new
      by (simp add: st restoring_def)
    then show ?thesis
      using lt by (simp add: re el views keys track_of_def sd)
  qed
qed

lemma reactivate_fold:
  assumes "restoring m qs"
  shows "restoring (fold (reactivate catalogue now) qs m) []
       \<and> map view (activeSounds (state (fold (reactivate catalogue now) qs m))) =
           map view (activeSounds (state m)) @
             map (track_of catalogue)
               (take (MAX_CONCURRENT_SOUNDS - length (activeSounds (state m)))
                  (restorable catalogue qs))
       \<and> map fst (soundStates (state (fold (reactivate catalogue now) qs m))) =
           map fst (soundStates (state m))"
  using assms
proof (induction qs arbitrary: m)
  case Nil
  then show ?case by (simp add: restorable_def)
next
  case (Cons q qs)
  obtain k s where q: "q = (k, s)" by (cases q)
  let ?m' = "reactivate catalogue now (k, s) m"
  let ?n = "length (activeSounds (state m))"
  let ?X = "restorable catalogue [(k, s)]"
  have step: "restoring ?m' qs"
    "map view (activeSounds (state ?m')) =
       map view (activeSounds (state m)) @
         map (track_of catalogue) (take (MAX_CONCURRENT_SOUNDS - ?n) ?X)"
    "map fst (soundStates (state ?m')) = map fst (soundStates (state m))"
    using reactivate_step [of m k s qs catalogue now] Cons.prems by (simp_all add: q)
  have "length (map view (activeSounds (state ?m'))) =
          ?n + min (length ?X) (MAX_CONCURRENT_SOUNDS - ?n)"
    unfolding step(2) by simp
  then have n': "length (activeSounds (state ?m')) = ?n + min (length ?X) (MAX_CONCURRENT_SOUNDS - ?n)"
    by simp
  have split: "restorable catalogue ((k, s) # qs) = ?X @ restorable catalogue qs"
    by (simp add: restorable_def)
  have tk: "take (MAX_CONCURRENT_SOUNDS - ?n) (restorable catalogue ((k, s) # qs)) =
        take (MAX_CONCURRENT_SOUNDS - ?n) ?X @
        take (MAX_CONCURRENT_SOUNDS - length (activeSounds (state ?m'))) (restorable catalogue qs)"
    unfolding split take_append n'
    by (simp add: min_def)
  show ?case
    using Cons.IH [OF step(1)] by (simp add: q step tk)
qed

lemma update_new: "k \<notin> fst ` set al \<Longrightarrow> AList.update k v al = al @ [(k, v)]"
  by (induction al) auto

lemma fold_update_new:
  "distinct (map fst ps) \<Longrightarrow> fst ` set ps \<inter> fst ` set acc = {} \<Longrightarrow>
   fold (\<lambda>(key, s) acc. AList.update key (g s) acc) ps acc = acc @ map (\<lambda>(key, s). (key, g s)) ps"
proof (induction ps arbitrary: acc)
  case Nil
  then show ?case by simp
next
  case (Cons p ps)
  obtain k s where p: "p = (k, s)" by (cases p)
  have new: "k \<notin> fst ` set acc" using Cons.prems(2) by (auto simp: p)
  have "fst ` set ps \<inter> fst ` set (acc @ [(k, g s)]) = {}"
    using Cons.prems by (auto simp: p)
  then show ?case
    using Cons.IH [of "acc @ [(k, g s)]"] Cons.prems(1) by (simp add: p update_new [OF new])
qed

lemma restoredState_distinct:
  "distinct (map fst ps) \<Longrightarrow>
   restoredState ps = map (\<lambda>(key, s). (key, \<lparr>ss_volume = ss_volume s, ss_isPlaying = Some False\<rparr>)) ps"
  unfolding restoredState_def
  using fold_update_new [of ps "[]" "\<lambda>s. \<lparr>ss_volume = ss_volume s, ss_isPlaying = Some False\<rparr>"]
  by simp

lemma map_of_restored:
  assumes "distinct (map fst ps)" and "(k, s) \<in> set ps"
  shows "map_of (map (\<lambda>(key, s). (key, \<lparr>ss_volume = ss_volume s, ss_isPlaying = Some False\<rparr>)) ps) k
           = Some \<lparr>ss_volume = ss_volume s, ss_isPlaying = Some False\<rparr>"
  using assms by (induction ps) (auto simp: rev_image_eqI)

lemma startTimerIfNeeded_frame:
  "state (startTimerIfNeeded m) = state m"
  "audios (env (startTimerIfNeeded m)) = audios (env m)"
  by (simp_all add: startTimerIfNeeded_def startTimer_def setInterval_def clearInterval_def
      Let_def split: option.splits prod.splits)

lemma loadCustomMixes_frame:
  "state (loadCustomMixes m) = state m" "env (loadCustomMixes m) = env m"
  by (simp_all add: loadCustomMixes_def split: option.splits)

lemma paused_of_audios: "audios e' = audios e \<Longrightarrow> paused_of h e' = paused_of h e"
  by (simp add: paused_of_def)

lemma view_ids: "map (sound_id \<circ> sound) xs = map (sound_id \<circ> fst) (map view xs)"
  by (simp add: view_def)

lemma view_volumes: "map volume xs = map snd (map view xs)"
  by (simp add: view_def)

lemma track_of_restorable:
  "(k, s) \<in> set (restorable catalogue ps) \<Longrightarrow>
   sound_id (fst (track_of catalogue (k, s))) = k
   \<and> find (\<lambda>x. sound_id x = k) catalogue = Some (fst (track_of catalogue (k, s)))
   \<and> snd (track_of catalogue (k, s)) = ss_volume s / 100"
  by (auto simp: restorable_def track_of_def dest: find_sound_id)

lemma loadSavedState_restores:
  assumes st: "stored_audio_state e = Some (Parsed ps)" and d: "distinct (map fst ps)"
  defines "m0 \<equiv> \<lparr>env = e, state = initialAudioState, timerInterval = None, customMixes = [],
                   delivered = []\<rparr>"
  shows "map view (activeSounds (state (loadSavedState catalogue now m0))) =
           map (track_of catalogue) (take MAX_CONCURRENT_SOUNDS (restorable catalogue ps))
       \<and> \<not> isPlaying (state (loadSavedState catalogue now m0))
       \<and> map fst (soundStates (state (loadSavedState catalogue now m0))) = map fst ps
       \<and> list_all (\<lambda>(k, s). ss_isPlaying s = Some False)
            (soundStates (state (loadSavedState catalogue now m0)))
       \<and> list_all (\<lambda>a. paused_of (audio a) (env (loadSavedState catalogue now m0)))
            (activeSounds (state (loadSavedState catalogue now m0)))"
proof -
  let ?R = "map (\<lambda>(key, s). (key, \<lparr>ss_volume = ss_volume s, ss_isPlaying = Some False\<rparr>)) ps"
  let ?m2 = "m0\<lparr>state := initialAudioState\<lparr>soundStates := ?R, isPlaying := False\<rparr>,
                  delivered := [initialAudioState\<lparr>soundStates := ?R\<rparr>]\<rparr>"
  let ?m3 = "fold (reactivate catalogue now) ps ?m2"
  have load: "loadSavedState catalogue now m0 =
                notify (?m3\<lparr>state := (state ?m3)\<lparr>isPlaying := False\<rparr>\<rparr>)"
    using st by (simp add: loadSavedState_def m0_def dispatch_def notify_def Let_def
        restoredState_distinct [OF d])
  have flags: "list_all (\<lambda>(k, s). ss_isPlaying s = Some False) ?R"
    by (simp add: list_all_iff split_beta)
  have inv: "restoring ?m2 ps"
    unfolding restoring_def
    using d flags map_of_restored [OF d]
    by (auto simp: m0_def initialAudioState_def)
  have fin: "restoring ?m3 []"
    "map view (activeSounds (state ?m3)) =
       map (track_of catalogue) (take MAX_CONCURRENT_SOUNDS (restorable catalogue ps))"
    "map fst (soundStates (state ?m3)) = map fst ps"
    using reactivate_fold [OF inv, of catalogue now]
    by (simp_all add: m0_def initialAudioState_def comp_def split_beta)
  show ?thesis
    using fin by (simp add: load notify_def restoring_def paused_of_def)
qed

text \<open>
  Claim C6 says that startup re-activates exactly the sounds with a positive saved
  volume. With four such sounds in storage, all in the catalogue, the constructor
  activates the first three only: the fourth \<^verbatim>\<open>toggleSound\<close> is rejected at capacity.
\<close>

theorem startup_restore_counterexample:
  "list_all (\<lambda>(k, s). ss_volume s > 0) four_saved
   \<and> map fst four_saved = [''rain'', ''wind'', ''fire'', ''birds'']
   \<and> map (sound_id \<circ> sound)
        (activeSounds (state (new_AudioStateManager four_sounds 0 (stored_env four_saved))))
       = [''rain'', ''wind'', ''fire'']"
proof -
  let ?m0 = "\<lparr>env = stored_env four_saved, state = initialAudioState, timerInterval = None,
              customMixes = [], delivered = []\<rparr>"
  have s: "stored_audio_state (stored_env four_saved) = Some (Parsed four_saved)"
    by (simp add: stored_env_def)
  have d: "distinct (map fst four_saved)"
    by (simp add: four_saved_def)
  have r: "map (sound_id \<circ> fst)
             (map (track_of four_sounds) (take MAX_CONCURRENT_SOUNDS (restorable four_sounds four_saved)))
           = [''rain'', ''wind'', ''fire'']"
    by (simp add: restorable_def track_of_def four_saved_def example_defs MAX_CONCURRENT_SOUNDS_def)
  have "map (sound_id \<circ> sound) (activeSounds (state (loadSavedState four_sounds 0 ?m0)))
          = [''rain'', ''wind'', ''fire'']"
    unfolding view_ids using loadSavedState_restores [OF s d, of four_sounds 0] r by simp
  then show ?thesis
    by (simp add: new_AudioStateManager_def startTimerIfNeeded_frame loadCustomMixes_frame
        four_saved_def)
qed

text \<open>
  Claim C6 as amended. Let the storage hold the settings \<open>ps\<close> (an object, so its keys
  are distinct). The tracks of the constructed manager are, in stored order, the first
  \<^verbatim>\<open>MAX_CONCURRENT_SOUNDS\<close> of the entries whose id is in the catalogue and whose
  saved volume is positive: each track has the id of its entry, the entry's volume
  divided by 100 and the catalogue's sound of that id. \<^verbatim>\<open>isPlaying\<close> is false,
  \<^verbatim>\<open>soundStates\<close> has the stored keys and every entry is marked not playing, and every
  track's audio element is paused.
\<close>

theorem startup_restore:
  assumes st: "stored_audio_state e = Some (Parsed ps)" and d: "distinct (map fst ps)"
  shows "map (sound_id \<circ> sound) (activeSounds (state (new_AudioStateManager catalogue now e)))
           = map fst (take MAX_CONCURRENT_SOUNDS (restorable catalogue ps))
       \<and> map volume (activeSounds (state (new_AudioStateManager catalogue now e)))
           = map (\<lambda>(k, s). ss_volume s / 100) (take MAX_CONCURRENT_SOUNDS (restorable catalogue ps))
       \<and> list_all (\<lambda>a. find (\<lambda>x. sound_id x = sound_id (sound a)) catalogue = Some (sound a))
            (activeSounds (state (new_AudioStateManager catalogue now e)))
       \<and> \<not> isPlaying (state (new_AudioStateManager catalogue now e))
       \<and> map fst (soundStates (state (new_AudioStateManager catalogue now e))) = map fst ps
       \<and> list_all (\<lambda>(k, s). ss_isPlaying s = Some False)
            (soundStates (state (new_AudioStateManager catalogue now e)))
       \<and> list_all (\<lambda>a. paused_of (audio a) (env (new_AudioStateManager catalogue now e)))
            (activeSounds (state (new_AudioStateManager catalogue now e)))"
proof -
  let ?m0 = "\<lparr>env = e, state = initialAudioState, timerInterval = None, customMixes = [],
              delivered = []\<rparr>"
  let ?l = "loadSavedState catalogue now ?m0"
  let ?T = "take MAX_CONCURRENT_SOUNDS (restorable catalogue ps)"
  let ?A = "activeSounds (state ?l)"
  have same: "state (new_AudioStateManager catalogue now e) = state ?l"
    "audios (env (new_AudioStateManager catalogue now e)) = audios (env ?l)"
    by (simp_all add: new_AudioStateManager_def startTimerIfNeeded_frame loadCustomMixes_frame)
  have L: "map view ?A = map (track_of catalogue) ?T"
    "\<not> isPlaying (state ?l)"
    "map fst (soundStates (state ?l)) = map fst ps"
    "list_all (\<lambda>(k, s). ss_isPlaying s = Some False) (soundStates (state ?l))"
    "list_all (\<lambda>a. paused_of (audio a) (env ?l)) ?A"
    using loadSavedState_restores [OF st d, of catalogue now] by simp_all
  have T: "\<And>k s. (k, s) \<in> set ?T \<Longrightarrow>
      sound_id (fst (track_of catalogue (k, s))) = k
      \<and> find (\<lambda>x. sound_id x = k) catalogue = Some (fst (track_of catalogue (k, s)))
      \<and> snd (track_of catalogue (k, s)) = ss_volume s / 100"
    by (rule track_of_restorable) (erule in_set_takeD)
  have ids: "map (sound_id \<circ> sound) ?A = map fst ?T"
    unfolding view_ids L(1) using T by (auto simp: comp_def)
  have vols: "map volume ?A = map (\<lambda>(k, s). ss_volume s / 100) ?T"
    unfolding view_volumes L(1) using T by (auto simp: comp_def)
  have cat: "list_all (\<lambda>a. find (\<lambda>x. sound_id x = sound_id (sound a)) catalogue = Some (sound a)) ?A"
    unfolding list_all_iff
  proof
    fix a assume "a \<in> set ?A"
    then have "view a \<in> set (map view ?A)" by simp
    then obtain k s where ks: "(k, s) \<in> set ?T" and v: "view a = track_of catalogue (k, s)"
      unfolding L(1) by auto
    have "fst (view a) = fst (track_of catalogue (k, s))"
      using v by (rule arg_cong)
    then have "sound a = fst (track_of catalogue (k, s))"
      by (simp add: view_def)
    then show "find (\<lambda>x. sound_id x = sound_id (sound a)) catalogue = Some (sound a)"
      using T [OF ks] by simp
  qed
  have paused: "list_all (\<lambda>a. paused_of (audio a) (env (new_AudioStateManager catalogue now e))) ?A"
    using L(5) by (simp add: paused_of_audios [OF same(2)])
  show ?thesis
    using ids vols cat L(2,3,4) paused by (simp add: same(1))
qed

theorem startup_restore_witness:
  "stored_audio_state (stored_env rain_saved) = Some (Parsed rain_saved)
   \<and> distinct (map fst rain_saved)
   \<and> map (sound_id \<circ> sound)
        (activeSounds (state (new_AudioStateManager four_sounds 0 (stored_env rain_saved))))
       = [''rain'']
   \<and> map volume
        (activeSounds (state (new_AudioStateManager four_sounds 0 (stored_env rain_saved))))
       = [0.5]
   \<and> \<not> isPlaying (state (new_AudioStateManager four_sounds 0 (stored_env rain_saved)))
   \<and> list_all (\<lambda>(k, s). ss_isPlaying s = Some False)
        (soundStates (state (new_AudioStateManager four_sounds 0 (stored_env rain_saved))))
   \<and> list_all (\<lambda>a. paused_of (audio a) (env (new_AudioStateManager four_sounds 0 (stored_env rain_saved))))
        (activeSounds (state (new_AudioStateManager four_sounds 0 (stored_env rain_saved))))"
proof -
  have s: "stored_audio_state (stored_env rain_saved) = Some (Parsed rain_saved)"
    by (simp add: stored_env_def)
  have d: "distinct (map fst rain_saved)"
    by (simp add: rain_saved_def)
  have r: "take MAX_CONCURRENT_SOUNDS (restorable four_sounds rain_saved) = rain_saved"
    by (simp add: restorable_def rain_saved_def example_defs MAX_CONCURRENT_SOUNDS_def)
  show ?thesis
    using s d startup_restore [OF s d, of four_sounds 0]
    unfolding r by (simp add: rain_saved_def)
qed

section \<open>C7: applying a mix\<close>

lemma map_has_update: "map_has (AList.update k v m) k' \<longleftrightarrow> k' = k \<or> map_has m k'"
  by (simp add: map_has_def update_conv')

lemma map_has_fold_tracks:
  "map_has (fold (\<lambda>a m. AList.update (sound_id (sound a)) a m) xs acc) k
     \<longleftrightarrow> k \<in> track_ids xs \<or> map_has acc k"
  by (induction xs arbitrary: acc) (auto simp: map_has_update track_ids_def)

lemma map_has_current: "map_has (currentActiveSoundMap st) k \<longleftrightarrow> k \<in> track_ids (activeSounds st)"
  by (simp add: currentActiveSoundMap_def map_has_fold_tracks) (simp add: map_has_def)

lemma map_has_fold_mix:
  "map_has (fold (\<lambda>(k, v) m. AList.update k (k, v) m) ms acc) k'
     \<longleftrightarrow> k' \<in> fst ` set ms \<or> map_has acc k'"
  by (induction ms arbitrary: acc) (auto simp: map_has_update)

lemma map_has_target: "map_has (targetSoundMap ms) k \<longleftrightarrow> k \<in> fst ` set ms"
  by (simp add: targetSoundMap_def map_has_fold_mix) (simp add: map_has_def)

lemma update_entries:
  "(k', a') \<in> set (AList.update k a m) \<Longrightarrow> (k', a') = (k, a) \<or> (k', a') \<in> set m"
  by (induction m) (auto split: if_splits)

lemma fold_tracks_entries:
  "(k, a) \<in> set (fold (\<lambda>a m. AList.update (sound_id (sound a)) a m) xs acc) \<Longrightarrow>
   (sound_id (sound a) = k \<and> a \<in> set xs) \<or> (k, a) \<in> set acc"
proof (induction xs arbitrary: acc)
  case Nil
  then show ?case by simp
next
  case (Cons x xs)
  from Cons.IH [OF Cons.prems [simplified]] show ?case
    by (auto dest: update_entries)
qed

lemma fold_tracks_keys:
  "fst ` set (fold (\<lambda>a m. AList.update (sound_id (sound a)) a m) xs acc)
     = track_ids xs \<union> fst ` set acc"
  by (induction xs arbitrary: acc) (auto simp: dom_update track_ids_def)

lemma soundsToRemove_ids:
  "track_ids (soundsToRemove st ms) = track_ids (activeSounds st) - fst ` set ms"
proof -
  have ent: "\<And>k a. (k, a) \<in> set (currentActiveSoundMap st) \<Longrightarrow> sound_id (sound a) = k"
    unfolding currentActiveSoundMap_def by (drule fold_tracks_entries) simp
  have keys: "fst ` set (currentActiveSoundMap st) = track_ids (activeSounds st)"
    unfolding currentActiveSoundMap_def by (simp add: fold_tracks_keys)
  show ?thesis
  proof (intro set_eqI iffI)
    fix k assume "k \<in> track_ids (soundsToRemove st ms)"
    then obtain k' a where "(k', a) \<in> set (currentActiveSoundMap st)" "k' \<notin> fst ` set ms"
      "sound_id (sound a) = k"
      by (auto simp: soundsToRemove_def track_ids_def map_has_target)
    then show "k \<in> track_ids (activeSounds st) - fst ` set ms"
      using ent keys by force
  next
    fix k assume "k \<in> track_ids (activeSounds st) - fst ` set ms"
    then obtain a where "(k, a) \<in> set (currentActiveSoundMap st)" "k \<notin> fst ` set ms"
      using keys by force
    then show "k \<in> track_ids (soundsToRemove st ms)"
      using ent by (force simp: soundsToRemove_def track_ids_def map_has_target)
  qed
qed

lemma remove_step_apply:
  "remove_step r (X, SS, e) =
     (filter (\<lambda>a. sound_id (sound a) \<noteq> sound_id (sound r)) X,
      AList.delete (sound_id (sound r)) SS,
      set_src (audio r) [] (pause (audio r) e))"
  by (simp add: remove_step_def)

lemma fold_remove_step:
  "fold remove_step rs (X, SS, e) = (X', SS', e') \<Longrightarrow>
   X' = filter (\<lambda>a. sound_id (sound a) \<notin> track_ids rs) X
   \<and> length (audios e') = length (audios e)"
proof (induction rs arbitrary: X SS e)
  case Nil
  then show ?case by (simp add: track_ids_def)
next
  case (Cons r rs)
  from Cons.prems have "fold remove_step rs
      (filter (\<lambda>a. sound_id (sound a) \<noteq> sound_id (sound r)) X,
       AList.delete (sound_id (sound r)) SS,
       set_src (audio r) [] (pause (audio r) e)) = (X', SS', e')"
    by (simp add: remove_step_apply)
  from Cons.IH [OF this] show ?case
    by (auto simp: track_ids_def set_src_def pause_def modify_def intro: filter_cong)
qed

lemma find_in_mix: "(k, v) \<in> set ms \<Longrightarrow> find (\<lambda>s. fst s = k) ms \<noteq> None"
  by (auto simp: find_None_iff)

lemma fold_set_volume_paused:
  "map el_paused (audios (fold (\<lambda>a. if P a then set_volume (audio a) g else id) xs e))
     = map el_paused (audios e)"
proof (induction xs arbitrary: e)
  case Nil
  then show ?case by simp
next
  case (Cons x xs)
  have "map el_paused (audios (set_volume (audio x) g e)) = map el_paused (audios e)"
    by (simp add: set_volume_def modify_def map_update list_update_same_conv)
  then show ?case using Cons.IH by simp
qed

lemma mix_step_existing:
  assumes "k \<in> track_ids (activeSounds st)"
  shows "\<exists>SS' e'. mix_step catalogue st ms (k, v) (X, SS, e) =
           (map (\<lambda>a. if has_id k a then a\<lparr>volume := v\<rparr> else a) X, SS', e')
         \<and> map el_paused (audios e') = map el_paused (audios e)"
  using assms by (simp add: mix_step_def map_has_current fold_set_volume_paused)

lemma mix_step_skip:
  assumes "k \<notin> track_ids (activeSounds st)" and "find (\<lambda>s. sound_id s = k) catalogue = None"
  shows "mix_step catalogue st ms (k, v) (X, SS, e) = (X, SS, e)"
  using assms by (simp add: mix_step_def map_has_current split: option.splits)

lemma mix_step_new:
  assumes "k \<notin> track_ids (activeSounds st)" and "find (\<lambda>s. sound_id s = k) catalogue = Some sd"
    and "(k, v) \<in> set ms"
  shows "\<exists>SS' e'. mix_step catalogue st ms (k, v) (X, SS, e) =
           (X @ [\<lparr>sound = sd, audio = length (audios e), volume = v\<rparr>], SS', e')
         \<and> map el_paused (audios e') = map el_paused (audios e) @ [\<not> isPlaying st]"
proof -
  obtain d where "find (\<lambda>s. fst s = k) ms = Some d"
    using find_in_mix [OF assms(3)] by auto
  then show ?thesis
    using assms(1,2)
    by (simp add: mix_step_def map_has_current createAudioElement_def alloc_def new_Audio_def
        play_def modify_def Let_def)
qed

lemma retune_other: "sound_id (sound a) \<notin> cur \<Longrightarrow> retune cur ms a = a"
  by (induction cur ms a rule: retune.induct) (auto simp: has_id_def)

lemma fold_mix_step:
  assumes "fold (mix_step catalogue st M) ms (X, SS, e) = (X', SS', e')"
    and "set ms \<subseteq> set M"
  shows "X' = map (retune (track_ids (activeSounds st)) ms) X
               @ created catalogue (track_ids (activeSounds st)) (length (audios e)) ms
       \<and> map el_paused (audios e') =
           map el_paused (audios e)
             @ replicate (length (created catalogue (track_ids (activeSounds st))
                                    (length (audios e)) ms)) (\<not> isPlaying st)"
  using assms
proof (induction ms arbitrary: X SS e)
  case Nil
  then show ?case by simp
next
  case (Cons p ms)
  obtain k v where p: "p = (k, v)" by (cases p)
  let ?cur = "track_ids (activeSounds st)"
  have sub: "set ms \<subseteq> set M" and mem: "(k, v) \<in> set M"
    using Cons.prems(2) by (auto simp: p)
  show ?case
  proof (cases "k \<in> ?cur")
    case True
    obtain S1 e1 where step: "mix_step catalogue st M (k, v) (X, SS, e) =
           (map (\<lambda>a. if has_id k a then a\<lparr>volume := v\<rparr> else a) X, S1, e1)"
        and pa: "map el_paused (audios e1) = map el_paused (audios e)"
      using mix_step_existing [OF True, of catalogue M v X SS e] by blast
    have len: "length (audios e1) = length (audios e)"
      using pa by (metis length_map)
    have "fold (mix_step catalogue st M) ms
            (map (\<lambda>a. if has_id k a then a\<lparr>volume := v\<rparr> else a) X, S1, e1) = (X', SS', e')"
      using Cons.prems(1) by (simp add: p step)
    from Cons.IH [OF this sub] show ?thesis
      using True by (simp add: p pa len)
  next
    case False
    show ?thesis
    proof (cases "find (\<lambda>s. sound_id s = k) catalogue")
      case None
      have "fold (mix_step catalogue st M) ms (X, SS, e) = (X', SS', e')"
        using Cons.prems(1) by (simp add: p mix_step_skip [OF False None])
      from Cons.IH [OF this sub] show ?thesis
        using False None by (simp add: p)
    next
      case (Some sd)
      let ?new = "\<lparr>sound = sd, audio = length (audios e), volume = v\<rparr>"
      obtain S1 e1 where step: "mix_step catalogue st M (k, v) (X, SS, e) = (X @ [?new], S1, e1)"
        and pa: "map el_paused (audios e1) = map el_paused (audios e) @ [\<not> isPlaying st]"
        using mix_step_new [OF False Some mem, of X SS e] by blast
      have len: "length (audios e1) = Suc (length (audios e))"
        using pa by (metis length_map length_append_singleton)
      have id: "sound_id sd = k" using Some by (rule find_sound_id)
      have same: "retune ?cur ms ?new = ?new"
        using False by (intro retune_other) (simp add: id)
      have "fold (mix_step catalogue st M) ms (X @ [?new], S1, e1) = (X', SS', e')"
        using Cons.prems(1) by (simp add: p step)
      from Cons.IH [OF this sub] show ?thesis
        using False Some by (simp add: p pa len same replicate_append_same)
    qed
  qed
qed

lemma apply_mix_result:
  assumes "apply_mix catalogue mix (e, st) = (e', st')"
  shows "activeSounds st' =
           map (retune (track_ids (activeSounds st)) (mix_sounds mix))
             (filter (in_mix (mix_sounds mix)) (activeSounds st))
           @ created catalogue (track_ids (activeSounds st)) (length (audios e)) (mix_sounds mix)
       \<and> map el_paused (drop (length (audios e)) (audios e')) =
           replicate (length (created catalogue (track_ids (activeSounds st))
                                (length (audios e)) (mix_sounds mix))) (\<not> isPlaying st)
       \<and> length (audios e') =
           length (audios e) + length (created catalogue (track_ids (activeSounds st))
                                (length (audios e)) (mix_sounds mix))
       \<and> isPlaying st' = isPlaying st"
proof -
  let ?M = "mix_sounds mix"
  obtain X1 S1 e1 where rem: "fold remove_step (soundsToRemove st ?M)
                      (activeSounds st, soundStates st, e) = (X1, S1, e1)"
    by (metis prod_cases3)
  obtain X2 S2 e2 where mixed: "fold (mix_step catalogue st ?M) ?M (X1, S1, e1) = (X2, S2, e2)"
    by (metis prod_cases3)
  have res: "e' = setItem_audio_state S2 e2" "st' = st\<lparr>activeSounds := X2, soundStates := S2\<rparr>"
    using assms by (simp_all add: apply_mix_def Let_def rem mixed)
  have X1: "X1 = filter (\<lambda>a. sound_id (sound a) \<notin> track_ids (soundsToRemove st ?M)) (activeSounds st)"
    and len1: "length (audios e1) = length (audios e)"
    using fold_remove_step [OF rem] by simp_all
  have "X1 = filter (in_mix ?M) (activeSounds st)"
    unfolding X1 soundsToRemove_ids
    by (rule filter_cong) (auto simp: in_mix_def track_ids_def)
  moreover have X2: "X2 = map (retune (track_ids (activeSounds st)) ?M) X1
               @ created catalogue (track_ids (activeSounds st)) (length (audios e1)) ?M"
    and pa: "map el_paused (audios e2) = map el_paused (audios e1)
             @ replicate (length (created catalogue (track_ids (activeSounds st))
                                    (length (audios e1)) ?M)) (\<not> isPlaying st)"
    using fold_mix_step [OF mixed] by simp_all
  moreover have "map el_paused (drop (length (audios e)) (audios e2)) =
      drop (length (audios e1)) (map el_paused (audios e2))"
    by (simp add: drop_map len1)
  moreover have "length (audios e2) =
      length (audios e1) + length (created catalogue (track_ids (activeSounds st))
                                    (length (audios e1)) ?M)"
    using arg_cong [OF pa, of length] by simp
  ultimately show ?thesis
    by (simp add: res setItem_audio_state_def len1 pa)
qed

lemma retune_frame: "sound (retune cur ms a) = sound a \<and> audio (retune cur ms a) = audio a"
  by (induction cur ms a rule: retune.induct) auto

lemma retune_absent: "sound_id (sound a) \<notin> fst ` set ms \<Longrightarrow> retune cur ms a = a"
  by (induction cur ms a rule: retune.induct) (auto simp: has_id_def)

lemma retune_volume:
  "sound_id (sound a) \<in> cur \<Longrightarrow> sound_id (sound a) \<in> fst ` set ms \<Longrightarrow>
   (sound_id (sound a), volume (retune cur ms a)) \<in> set ms"
proof (induction ms arbitrary: a)
  case Nil
  then show ?case by simp
next
  case (Cons p ms)
  obtain k v where p: "p = (k, v)" by (cases p)
  let ?a1 = "if k \<in> cur \<and> has_id k a then a\<lparr>volume := v\<rparr> else a"
  have id1: "sound_id (sound ?a1) = sound_id (sound a)" by simp
  show ?case
  proof (cases "sound_id (sound a) \<in> fst ` set ms")
    case True
    then have "(sound_id (sound ?a1), volume (retune cur ms ?a1)) \<in> set ms"
      using Cons.prems(1) by (intro Cons.IH) (simp_all only: id1)
    then show ?thesis by (cases "k \<in> cur \<and> has_id k a") (auto simp: p)
  next
    case False
    then have k: "k = sound_id (sound a)" using Cons.prems(2) by (auto simp: p)
    have "retune cur ms ?a1 = ?a1"
      using False by (intro retune_absent) simp
    then show ?thesis
      using Cons.prems(1) by (simp add: p k has_id_def)
  qed
qed

lemma created_entries:
  "map (\<lambda>a. (sound_id (sound a), volume a)) (created catalogue cur n ms) =
     filter (\<lambda>(k, v). k \<notin> cur \<and> find (\<lambda>s. sound_id s = k) catalogue \<noteq> None) ms"
  by (induction catalogue cur n ms rule: created.induct)
     (auto dest: find_sound_id split: option.splits)

lemma created_sounds:
  "a \<in> set (created catalogue cur n ms) \<Longrightarrow>
   find (\<lambda>s. sound_id s = sound_id (sound a)) catalogue = Some (sound a)"
  by (induction catalogue cur n ms rule: created.induct)
     (auto simp: find_self split: option.splits if_splits)

lemma created_handles:
  "map audio (created catalogue cur n ms) = [n ..< n + length (created catalogue cur n ms)]"
  by (induction catalogue cur n ms rule: created.induct)
     (auto simp: upt_conv_Cons simp del: upt_Suc split: option.splits)

lemma applyMix_reducer:
  "(env (applyMix catalogue now mix m), state (applyMix catalogue now mix m))
     = apply_mix catalogue mix (env m, state m)"
  by (simp add: applyMix_def dispatch_def notify_def split: prod.splits)

lemma playing_manager_state:
  "activeSounds (state playing_manager) = []" "isPlaying (state playing_manager)"
  "audios (env playing_manager) = []"
  by (simp_all add: playing_manager_def dispatch_def notify_def toggle_play_pause_def
      mark_all_def dom_defs example_defs Let_def)

text \<open>
  Claim C7 says that \<^verbatim>\<open>APPLY_MIX\<close> creates a track for every id of the mix that is not
  active. An id that the catalogue does not have is skipped: here the mix names
  \<^verbatim>\<open>rain\<close> and an unknown id, no track is active, and only \<^verbatim>\<open>rain\<close> becomes a track.
\<close>

theorem apply_mix_tracks_counterexample:
  "activeSounds (state fresh_manager) = []
   \<and> mix_sounds unknown_mix = [(''rain'', 0.5), (''no-such-sound'', 0.3)]
   \<and> activeSounds (state (applyMix four_sounds 0 unknown_mix fresh_manager))
        = [\<lparr>sound = rain, audio = 0, volume = 0.5\<rparr>]"
  by (simp add: applyMix_def dispatch_def notify_def apply_mix_def soundsToRemove_def
      currentActiveSoundMap_def targetSoundMap_def mix_step_def map_has_def unknown_mix_def
      dom_defs example_defs Let_def)

text \<open>
  Claim C7 as amended. Let \<open>A\<close> be the track list before and \<open>A'\<close> after
  \<^verbatim>\<open>applyMix(mix)\<close>, and \<open>n\<close> the number of tracks of \<open>A\<close> whose id is in the mix.
  Every track of \<open>A'\<close> has an id of the mix (the others are removed). The first \<open>n\<close>
  tracks of \<open>A'\<close> are the tracks of \<open>A\<close> with an id of the mix, in order, with their
  sound and audio element, and each has a volume that the mix gives for its id. The
  remaining tracks of \<open>A'\<close> are, in order, one for each entry of the mix whose id was
  not active and is in the catalogue, with the entry's volume and the catalogue's sound;
  the audio element of such a track is paused exactly when \<^verbatim>\<open>isPlaying\<close> is false.
  \<^verbatim>\<open>isPlaying\<close> does not change. In particular, when no track is active and the
  catalogue has \<^verbatim>\<open>rain\<close> and \<^verbatim>\<open>wind\<close>, the mix of \<^verbatim>\<open>rain\<close> at 0.5 and \<^verbatim>\<open>wind\<close> at
  0.3 gives exactly these two tracks.
\<close>

theorem apply_mix_tracks:
  "let A = activeSounds (state m); M = mix_sounds mix;
       m' = applyMix catalogue now mix m; A' = activeSounds (state m');
       n = length (filter (in_mix M) A)
   in (\<forall>a'\<in>set A'. in_mix M a')
    \<and> map (\<lambda>a. (sound a, audio a)) (take n A') = map (\<lambda>a. (sound a, audio a)) (filter (in_mix M) A)
    \<and> (\<forall>a'\<in>set (take n A'). (sound_id (sound a'), volume a') \<in> set M)
    \<and> map (\<lambda>a. (sound_id (sound a), volume a)) (drop n A') =
        filter (\<lambda>(k, v). k \<notin> track_ids A \<and> find (\<lambda>s. sound_id s = k) catalogue \<noteq> None) M
    \<and> (\<forall>a'\<in>set (drop n A').
          find (\<lambda>s. sound_id s = sound_id (sound a')) catalogue = Some (sound a')
          \<and> audio a' < length (audios (env m'))
          \<and> el_paused (audios (env m') ! audio a') = (\<not> isPlaying (state m)))
    \<and> isPlaying (state m') = isPlaying (state m)
    \<and> (A = [] \<and> M = [(''rain'', 0.5), (''wind'', 0.3)]
        \<and> find (\<lambda>s. sound_id s = ''rain'') catalogue = Some r
        \<and> find (\<lambda>s. sound_id s = ''wind'') catalogue = Some w
       \<longrightarrow> A' = [\<lparr>sound = r, audio = length (audios (env m)), volume = 0.5\<rparr>,
                 \<lparr>sound = w, audio = Suc (length (audios (env m))), volume = 0.3\<rparr>])"
proof -
  let ?A = "activeSounds (state m)" and ?M = "mix_sounds mix"
  let ?m' = "applyMix catalogue now mix m"
  let ?A' = "activeSounds (state ?m')"
  let ?K = "filter (in_mix ?M) ?A"
  let ?cur = "track_ids ?A"
  let ?n0 = "length (audios (env m))"
  let ?C = "created catalogue ?cur ?n0 ?M"
  have res: "?A' = map (retune ?cur ?M) ?K @ ?C"
    "map el_paused (drop ?n0 (audios (env ?m'))) = replicate (length ?C) (\<not> isPlaying (state m))"
    "length (audios (env ?m')) = ?n0 + length ?C"
    "isPlaying (state ?m') = isPlaying (state m)"
    using apply_mix_result [OF applyMix_reducer [symmetric], of catalogue now mix m] by simp_all
  have tk: "take (length ?K) ?A' = map (retune ?cur ?M) ?K"
    and dr: "drop (length ?K) ?A' = ?C"
    by (simp_all add: res(1))
  have Cids: "\<And>a. a \<in> set ?C \<Longrightarrow> in_mix ?M a"
  proof -
    fix a assume "a \<in> set ?C"
    then have "(sound_id (sound a), volume a) \<in> set (map (\<lambda>a. (sound_id (sound a), volume a)) ?C)"
      by force
    then have "(sound_id (sound a), volume a) \<in> set ?M"
      unfolding created_entries by simp
    then show "in_mix ?M a" by (force simp: in_mix_def)
  qed
  have 1: "\<forall>a'\<in>set ?A'. in_mix ?M a'"
    using Cids by (auto simp: res(1) in_mix_def retune_frame intro: rev_image_eqI)
  have 2: "map (\<lambda>a. (sound a, audio a)) (take (length ?K) ?A') = map (\<lambda>a. (sound a, audio a)) ?K"
    by (simp add: tk retune_frame comp_def)
  have 3: "\<forall>a'\<in>set (take (length ?K) ?A'). (sound_id (sound a'), volume a') \<in> set ?M"
  proof
    fix a' assume "a' \<in> set (take (length ?K) ?A')"
    then obtain a where a: "a \<in> set ?A" "in_mix ?M a" and a': "a' = retune ?cur ?M a"
      unfolding tk by auto
    have "(sound_id (sound a), volume (retune ?cur ?M a)) \<in> set ?M"
      using a by (intro retune_volume) (auto simp: track_ids_def in_mix_def)
    then show "(sound_id (sound a'), volume a') \<in> set ?M"
      by (simp add: a' retune_frame)
  qed
  have 4: "map (\<lambda>a. (sound_id (sound a), volume a)) (drop (length ?K) ?A') =
        filter (\<lambda>(k, v). k \<notin> ?cur \<and> find (\<lambda>s. sound_id s = k) catalogue \<noteq> None) ?M"
    by (simp add: dr created_entries)
  have 5: "\<forall>a'\<in>set (drop (length ?K) ?A').
          find (\<lambda>s. sound_id s = sound_id (sound a')) catalogue = Some (sound a')
          \<and> audio a' < length (audios (env ?m'))
          \<and> el_paused (audios (env ?m') ! audio a') = (\<not> isPlaying (state m))"
  proof
    fix a' assume "a' \<in> set (drop (length ?K) ?A')"
    then have mem: "a' \<in> set ?C" by (simp add: dr)
    then obtain i where i: "i < length ?C" "a' = ?C ! i"
      by (auto simp: in_set_conv_nth)
    have "audio a' = map audio ?C ! i" using i by simp
    then have h: "audio a' = ?n0 + i"
      unfolding created_handles using i by simp
    have "map el_paused (drop ?n0 (audios (env ?m'))) ! i = (\<not> isPlaying (state m))"
      unfolding res(2) using i by simp
    then have "el_paused (audios (env ?m') ! (?n0 + i)) = (\<not> isPlaying (state m))"
      using i(1) res(3) by simp
    then have p: "el_paused (audios (env ?m') ! audio a') = (\<not> isPlaying (state m))"
      by (simp only: h)
    have lt: "audio a' < length (audios (env ?m'))"
      using i(1) by (simp add: h res(3))
    show "find (\<lambda>s. sound_id s = sound_id (sound a')) catalogue = Some (sound a')
          \<and> audio a' < length (audios (env ?m'))
          \<and> el_paused (audios (env ?m') ! audio a') = (\<not> isPlaying (state m))"
      using created_sounds [OF mem] lt p by blast
  qed
  have 7: "?A = [] \<and> ?M = [(''rain'', 0.5), (''wind'', 0.3)]
        \<and> find (\<lambda>s. sound_id s = ''rain'') catalogue = Some r
        \<and> find (\<lambda>s. sound_id s = ''wind'') catalogue = Some w
       \<longrightarrow> ?A' = [\<lparr>sound = r, audio = ?n0, volume = 0.5\<rparr>,
                 \<lparr>sound = w, audio = Suc ?n0, volume = 0.3\<rparr>]"
    by (auto simp: res(1) track_ids_def)
  show ?thesis
    unfolding Let_def using 1 2 3 4 5 res(4) 7 by blast
qed

theorem apply_mix_tracks_witness:
  "activeSounds (state fresh_manager) = []
   \<and> find (\<lambda>s. sound_id s = ''rain'') four_sounds = Some rain
   \<and> find (\<lambda>s. sound_id s = ''wind'') four_sounds = Some wind
   \<and> \<not> isPlaying (state fresh_manager)
   \<and> activeSounds (state (applyMix four_sounds 0 rain_wind_mix fresh_manager))
        = [\<lparr>sound = rain, audio = 0, volume = 0.5\<rparr>, \<lparr>sound = wind, audio = 1, volume = 0.3\<rparr>]
   \<and> list_all (\<lambda>a. el_paused (audios (env (applyMix four_sounds 0 rain_wind_mix fresh_manager)) ! audio a))
        (activeSounds (state (applyMix four_sounds 0 rain_wind_mix fresh_manager)))
   \<and> isPlaying (state playing_manager)
   \<and> activeSounds (state (applyMix four_sounds 0 rain_wind_mix playing_manager))
        = [\<lparr>sound = rain, audio = 0, volume = 0.5\<rparr>, \<lparr>sound = wind, audio = 1, volume = 0.3\<rparr>]
   \<and> list_all (\<lambda>a. \<not> el_paused (audios (env (applyMix four_sounds 0 rain_wind_mix playing_manager)) ! audio a))
        (activeSounds (state (applyMix four_sounds 0 rain_wind_mix playing_manager)))
   \<and> map (\<lambda>a. (sound a, audio a))
        (take 1 (activeSounds (state (applyMix four_sounds 0 rain_birds_mix three_active))))
        = [(rain, 0)]
   \<and> list_all (\<lambda>a. (sound_id (sound a), volume a) \<in> set (mix_sounds rain_birds_mix))
        (take 1 (activeSounds (state (applyMix four_sounds 0 rain_birds_mix three_active))))
   \<and> map (\<lambda>a. (sound_id (sound a), volume a))
        (drop 1 (activeSounds (state (applyMix four_sounds 0 rain_birds_mix three_active))))
        = [(''birds'', 0.4)]
   \<and> list_all (in_mix (mix_sounds rain_birds_mix))
        (activeSounds (state (applyMix four_sounds 0 rain_birds_mix three_active)))"
proof -
  note T1 = apply_mix_tracks [of fresh_manager rain_wind_mix four_sounds 0 rain wind, unfolded Let_def]
  note T2 = apply_mix_tracks [of playing_manager rain_wind_mix four_sounds 0 rain wind, unfolded Let_def]
  note T3 = apply_mix_tracks [of three_active rain_birds_mix four_sounds 0 rain wind, unfolded Let_def]
  have f: "activeSounds (state fresh_manager) = []" "\<not> isPlaying (state fresh_manager)"
    "audios (env fresh_manager) = []"
    "find (\<lambda>s. sound_id s = ''rain'') four_sounds = Some rain"
    "find (\<lambda>s. sound_id s = ''wind'') four_sounds = Some wind"
    by (simp_all add: example_defs)
  have A1: "activeSounds (state (applyMix four_sounds 0 rain_wind_mix fresh_manager))
        = [\<lparr>sound = rain, audio = 0, volume = 0.5\<rparr>, \<lparr>sound = wind, audio = 1, volume = 0.3\<rparr>]"
    using T1 f by (simp add: rain_wind_mix_def)
  have P1: "list_all (\<lambda>a. el_paused (audios (env (applyMix four_sounds 0 rain_wind_mix fresh_manager)) ! audio a))
        (activeSounds (state (applyMix four_sounds 0 rain_wind_mix fresh_manager)))"
    using T1 f unfolding A1 by (simp add: rain_wind_mix_def)
  have A2: "activeSounds (state (applyMix four_sounds 0 rain_wind_mix playing_manager))
        = [\<lparr>sound = rain, audio = 0, volume = 0.5\<rparr>, \<lparr>sound = wind, audio = 1, volume = 0.3\<rparr>]"
    using T2 f playing_manager_state by (simp add: rain_wind_mix_def)
  have P2: "list_all (\<lambda>a. \<not> el_paused (audios (env (applyMix four_sounds 0 rain_wind_mix playing_manager)) ! audio a))
        (activeSounds (state (applyMix four_sounds 0 rain_wind_mix playing_manager)))"
    using T2 f playing_manager_state unfolding A2 by (simp add: rain_wind_mix_def)
  have K: "filter (in_mix (mix_sounds rain_birds_mix)) (activeSounds (state three_active))
             = [\<lparr>sound = rain, audio = 0, volume = 1\<rparr>]"
    by (simp add: three_active_sounds in_mix_def rain_birds_mix_def example_defs)
  have N: "filter (\<lambda>(k, v). k \<notin> track_ids (activeSounds (state three_active))
                \<and> find (\<lambda>s. sound_id s = k) four_sounds \<noteq> None) (mix_sounds rain_birds_mix)
             = [(''birds'', 0.4)]"
    by (simp add: three_active_sounds track_ids_def rain_birds_mix_def example_defs)
  show ?thesis
    using f A1 P1 A2 P2 playing_manager_state(2) T3
    unfolding K N by (simp add: list_all_iff)
qed

section \<open>C3: the end of a crossfade\<close>

lemma modify_other:
  "h \<noteq> h' \<Longrightarrow> h < length (audios e) \<Longrightarrow> audios (modify h' f e) ! h = audios e ! h"
  by (simp add: modify_def)

lemma modify_same:
  "h < length (audios e) \<Longrightarrow> audios (modify h f e) ! h = f (audios e ! h)"
  by (simp add: modify_def)

lemma volume_of_set_volume:
  "volume_of h (set_volume h' v e) =
     (if h = h' \<and> h < length (audios e) then v else volume_of h e)"
  by (auto simp: volume_of_def set_volume_def modify_def)

lemma adopt_frame:
  "length (audios (adopt b n e)) = length (audios e)"
  "volume_of h (adopt b n e) = volume_of h e"
  "h \<noteq> n \<Longrightarrow> paused_of h (adopt b n e) = paused_of h e"
  "h \<noteq> n \<Longrightarrow> src_of h (adopt b n e) = src_of h e"
  "src_of n (adopt b n e) = src_of n e"
  "intervals (adopt b n e) = intervals e"
  by (auto simp: adopt_def play_def pause_def modify_def paused_of_def volume_of_def src_of_def
      nth_list_update)

lemma fold_adopt_frame:
  "length (audios (fold (\<lambda>a. if P a then adopt b n else id) xs e)) = length (audios e)
   \<and> volume_of h (fold (\<lambda>a. if P a then adopt b n else id) xs e) = volume_of h e
   \<and> (h \<noteq> n \<longrightarrow> paused_of h (fold (\<lambda>a. if P a then adopt b n else id) xs e) = paused_of h e)
   \<and> src_of h (fold (\<lambda>a. if P a then adopt b n else id) xs e) = src_of h e
   \<and> intervals (fold (\<lambda>a. if P a then adopt b n else id) xs e) = intervals e"
proof (induction xs arbitrary: e)
  case Nil
  then show ?case by simp
next
  case (Cons x xs)
  show ?case
    using Cons.IH [of "adopt b n e"] Cons.IH [of e]
    by (cases "h = n") (simp_all add: adopt_frame)
qed

lemma handleCrossfade_env:
  "length (audios (env (handleCrossfade catalogue old new m))) = length (audios (env m))
   \<and> volume_of h (env (handleCrossfade catalogue old new m)) = volume_of h (env m)
   \<and> (h \<noteq> new \<longrightarrow> paused_of h (env (handleCrossfade catalogue old new m)) = paused_of h (env m))
   \<and> src_of h (env (handleCrossfade catalogue old new m)) = src_of h (env m)
   \<and> intervals (env (handleCrossfade catalogue old new m)) = intervals (env m)"
  using fold_adopt_frame [of "\<lambda>a. audio a = old" "isPlaying (state m)" new "activeSounds (state m)" "env m" h]
  by (auto simp: handleCrossfade_def replace_audio_def notify_def fold_adopt_frame
      split: option.splits)

lemma handleCrossfade_found:
  assumes "list_ex (\<lambda>a. audio a = old) (activeSounds (state m))"
  shows "state (handleCrossfade catalogue old new m) =
           (state m)\<lparr>activeSounds :=
              map (\<lambda>a. if audio a = old then a\<lparr>audio := new\<rparr> else a) (activeSounds (state m))\<rparr>
       \<and> delivered (handleCrossfade catalogue old new m) =
           delivered m @ [state (handleCrossfade catalogue old new m)]"
proof -
  obtain a where "find (\<lambda>a. audio a = old) (activeSounds (state m)) = Some a"
    using assms by (cases "find (\<lambda>a. audio a = old) (activeSounds (state m))")
      (auto simp: find_None_iff list_ex_iff)
  then show ?thesis
    by (simp add: handleCrossfade_def replace_audio_def notify_def)
qed

lemma fadeStep_continue:
  assumes "isCurrentlyPlaying f" "\<not> paused_of (fade_audio f) (env m)"
    and "Suc (currentStep f) < fadeSteps"
  shows "\<exists>e1. fadeStep catalogue f m = (m\<lparr>env := e1\<rparr>, Some (f\<lparr>currentStep := Suc (currentStep f)\<rparr>))
           \<and> \<not> paused_of (fade_audio f) e1
           \<and> length (audios e1) = length (audios (env m))"
proof -
  let ?e1 = "set_volume (fade_newAudio f)
               (targetVolume f * (real (Suc (currentStep f)) / real fadeSteps
                                   * (real (Suc (currentStep f)) / real fadeSteps)))
               (set_volume (fade_audio f)
                  (oldInitialVolume f * (1 - real (Suc (currentStep f)) / real fadeSteps
                                   * (real (Suc (currentStep f)) / real fadeSteps)))
                  (env m))"
  have "fadeStep catalogue f m = (m\<lparr>env := ?e1\<rparr>, Some (f\<lparr>currentStep := Suc (currentStep f)\<rparr>))"
    using assms by (simp add: fadeStep_def Let_def)
  then show ?thesis using assms(2) by (intro exI [of _ ?e1]) (simp add: frame_simps)
qed

lemma fadeStep_last:
  assumes "isCurrentlyPlaying f" "\<not> paused_of (fade_audio f) (env m)"
    and "Suc (currentStep f) = fadeSteps"
  shows "\<exists>e1. fadeStep catalogue f m =
           (handleCrossfade catalogue (fade_audio f) (fade_newAudio f)
              (m\<lparr>env := set_volume (fade_newAudio f) (targetVolume f) (release f e1)\<rparr>), None)
           \<and> length (audios e1) = length (audios (env m))"
proof -
  let ?e1 = "set_volume (fade_newAudio f)
               (targetVolume f * (real (Suc (currentStep f)) / real fadeSteps
                                   * (real (Suc (currentStep f)) / real fadeSteps)))
               (set_volume (fade_audio f)
                  (oldInitialVolume f * (1 - real (Suc (currentStep f)) / real fadeSteps
                                   * (real (Suc (currentStep f)) / real fadeSteps)))
                  (env m))"
  have "fadeStep catalogue f m =
           (handleCrossfade catalogue (fade_audio f) (fade_newAudio f)
              (m\<lparr>env := set_volume (fade_newAudio f) (targetVolume f) (release f ?e1)\<rparr>), None)"
    using assms by (simp add: fadeStep_def Let_def)
  then show ?thesis by (intro exI [of _ ?e1]) (simp add: frame_simps)
qed

lemma fadeRun_completes:
  assumes "isCurrentlyPlaying f" "\<not> paused_of (fade_audio f) (env m)"
    and "currentStep f + Suc k = fadeSteps"
  shows "\<exists>e1. fadeRun catalogue (Suc k) (Some f) m =
           (handleCrossfade catalogue (fade_audio f) (fade_newAudio f)
              (m\<lparr>env := set_volume (fade_newAudio f) (targetVolume f) (release f e1)\<rparr>), None)
           \<and> length (audios e1) = length (audios (env m))"
  using assms
proof (induction k arbitrary: f m)
  case 0
  then have "Suc (currentStep f) = fadeSteps" by simp
  from fadeStep_last [OF "0.prems"(1,2) this, of catalogue]
  show ?case by auto
next
  case (Suc k)
  then have lt: "Suc (currentStep f) < fadeSteps" by simp
  obtain e1 where step: "fadeStep catalogue f m =
        (m\<lparr>env := e1\<rparr>, Some (f\<lparr>currentStep := Suc (currentStep f)\<rparr>))"
      and np: "\<not> paused_of (fade_audio f) e1"
      and len: "length (audios e1) = length (audios (env m))"
    using fadeStep_continue [OF Suc.prems(1,2) lt, of catalogue] by blast
  let ?f' = "f\<lparr>currentStep := Suc (currentStep f)\<rparr>" and ?m' = "m\<lparr>env := e1\<rparr>"
  have "\<exists>e2. fadeRun catalogue (Suc k) (Some ?f') ?m' =
           (handleCrossfade catalogue (fade_audio ?f') (fade_newAudio ?f')
              (?m'\<lparr>env := set_volume (fade_newAudio ?f') (targetVolume ?f') (release ?f' e2)\<rparr>), None)
           \<and> length (audios e2) = length (audios (env ?m'))"
    using Suc.prems np by (intro Suc.IH) simp_all
  then obtain e2 where run: "fadeRun catalogue (Suc k) (Some ?f') ?m' =
           (handleCrossfade catalogue (fade_audio f) (fade_newAudio f)
              (m\<lparr>env := set_volume (fade_newAudio f) (targetVolume f) (release f e2)\<rparr>), None)"
      and len2: "length (audios e2) = length (audios (env m))"
    by (auto simp: release_def len)
  have "fadeRun catalogue (Suc (Suc k)) (Some f) m = fadeRun catalogue (Suc k) (Some ?f') ?m'"
    by (simp add: step)
  then show ?case using run len2 by auto
qed

lemma release_frame:
  "length (audios (release f e)) = length (audios e)"
  "fade_audio f < length (audios e) \<Longrightarrow> paused_of (fade_audio f) (release f e)"
  "fade_audio f < length (audios e) \<Longrightarrow> src_of (fade_audio f) (release f e) = []"
  "fadeInterval f \<notin> intervals (release f e)"
  by (auto simp: release_def set_src_def pause_def clearInterval_def modify_def paused_of_def
      src_of_def)

lemma set_volume_frame:
  "src_of h (set_volume h' v e) = src_of h e"
  "intervals (set_volume h' v e) = intervals e"
  by (auto simp: set_volume_def modify_def src_of_def nth_list_update)

text \<open>What a crossfade that is not interrupted leaves behind.\<close>

lemma fade_completion:
  assumes "isCurrentlyPlaying f" "\<not> paused_of (fade_audio f) (env m)"
    and "currentStep f < fadeSteps"
    and "fade_audio f < length (audios (env m))"
    and "fade_newAudio f < length (audios (env m))" "fade_audio f \<noteq> fade_newAudio f"
    and "list_ex (\<lambda>a. audio a = fade_audio f) (activeSounds (state m))"
  shows "snd (fadeRun catalogue (fadeSteps - currentStep f) (Some f) m) = None
       \<and> volume_of (fade_newAudio f)
            (env (fst (fadeRun catalogue (fadeSteps - currentStep f) (Some f) m))) = targetVolume f
       \<and> paused_of (fade_audio f)
            (env (fst (fadeRun catalogue (fadeSteps - currentStep f) (Some f) m)))
       \<and> src_of (fade_audio f)
            (env (fst (fadeRun catalogue (fadeSteps - currentStep f) (Some f) m))) = []
       \<and> fadeInterval f \<notin> intervals
            (env (fst (fadeRun catalogue (fadeSteps - currentStep f) (Some f) m)))
       \<and> state (fst (fadeRun catalogue (fadeSteps - currentStep f) (Some f) m)) =
           (state m)\<lparr>activeSounds :=
              map (\<lambda>a. if audio a = fade_audio f then a\<lparr>audio := fade_newAudio f\<rparr> else a)
                (activeSounds (state m))\<rparr>
       \<and> delivered (fst (fadeRun catalogue (fadeSteps - currentStep f) (Some f) m)) =
           delivered m @ [state (fst (fadeRun catalogue (fadeSteps - currentStep f) (Some f) m))]"
proof -
  have "fadeSteps - currentStep f = Suc (fadeSteps - Suc (currentStep f))"
    and "currentStep f + Suc (fadeSteps - Suc (currentStep f)) = fadeSteps"
    using assms(3) by simp_all
  then obtain k where k: "fadeSteps - currentStep f = Suc k" "currentStep f + Suc k = fadeSteps"
    by blast
  obtain e1 where run: "fadeRun catalogue (Suc k) (Some f) m =
           (handleCrossfade catalogue (fade_audio f) (fade_newAudio f)
              (m\<lparr>env := set_volume (fade_newAudio f) (targetVolume f) (release f e1)\<rparr>), None)"
      and len: "length (audios e1) = length (audios (env m))"
    using fadeRun_completes [OF assms(1,2) k(2), of catalogue] by blast
  let ?e = "set_volume (fade_newAudio f) (targetVolume f) (release f e1)"
  have fin: "volume_of (fade_newAudio f) ?e = targetVolume f"
    "paused_of (fade_audio f) ?e" "src_of (fade_audio f) ?e = []"
    "fadeInterval f \<notin> intervals ?e"
    using assms(4,5) len
    by (simp_all add: volume_of_set_volume release_frame set_volume_frame frame_simps)
  have found: "list_ex (\<lambda>a. audio a = fade_audio f) (activeSounds (state (m\<lparr>env := ?e\<rparr>)))"
    using assms(7) by simp
  let ?h = "handleCrossfade catalogue (fade_audio f) (fade_newAudio f) (m\<lparr>env := ?e\<rparr>)"
  have r: "fadeRun catalogue (fadeSteps - currentStep f) (Some f) m = (?h, None)"
    by (simp only: k(1) run)
  have 1: "volume_of (fade_newAudio f) (env ?h) = targetVolume f"
    using handleCrossfade_env [of catalogue "fade_audio f" "fade_newAudio f" "m\<lparr>env := ?e\<rparr>" "fade_newAudio f"]
      fin(1) by simp
  have 2: "paused_of (fade_audio f) (env ?h)"
    using handleCrossfade_env [of catalogue "fade_audio f" "fade_newAudio f" "m\<lparr>env := ?e\<rparr>" "fade_audio f"]
      fin(2) assms(6) by simp
  have 3: "src_of (fade_audio f) (env ?h) = []"
    using handleCrossfade_env [of catalogue "fade_audio f" "fade_newAudio f" "m\<lparr>env := ?e\<rparr>" "fade_audio f"]
      fin(3) by simp
  have 4: "fadeInterval f \<notin> intervals (env ?h)"
    using handleCrossfade_env [of catalogue "fade_audio f" "fade_newAudio f" "m\<lparr>env := ?e\<rparr>" "fade_audio f"]
      fin(4) by simp
  have 5: "state ?h =
           (state m)\<lparr>activeSounds :=
              map (\<lambda>a. if audio a = fade_audio f then a\<lparr>audio := fade_newAudio f\<rparr> else a)
                (activeSounds (state m))\<rparr>"
    and 6: "delivered ?h = delivered m @ [state ?h]"
    using handleCrossfade_found [OF found, of catalogue "fade_newAudio f"] by simp_all
  show ?thesis
    unfolding r fst_conv snd_conv using 1 2 3 4 5 6 by blast
qed

lemma rain_playing_eval:
  "activeSounds (state rain_playing) = [\<lparr>sound = rain, audio = 0, volume = 1\<rparr>]"
  "masterVolume (state rain_playing) = 0.2"
  "isPlaying (state rain_playing)"
  "audios (env rain_playing) =
     [\<lparr>el_src = ''/sounds/rain.mp3'', el_volume = 0.2, el_paused = False,
       el_crossfadeTriggered = False,
       el_listener = Some \<lparr>cap_sound = rain, cap_volume = 1, cap_masterVolume = 0.7\<rparr>\<rparr>]"
  by (simp_all add: rain_playing_def setMasterVolume_def set_master_volume_def
      playing_manager_def toggle_play_pause_def mark_all_def
      toggleSound_def dispatch_def notify_def toggle_sound_def
      saved_volume_or_default_def has_id_def MAX_CONCURRENT_SOUNDS_def dom_defs example_defs
      Let_def)

lemma near_end_eval:
  "snd near_end =
     Some \<lparr>fade_audio = 0, fade_newAudio = 1, isCurrentlyPlaying = True,
           oldInitialVolume = 0.2, targetVolume = 0.7, currentStep = 0,
           fadeInterval = Suc (next_interval (env rain_playing))\<rparr>"
  "audios (fst near_end) =
     [\<lparr>el_src = ''/sounds/rain.mp3'', el_volume = 0.2, el_paused = False,
       el_crossfadeTriggered = True,
       el_listener = Some \<lparr>cap_sound = rain, cap_volume = 1, cap_masterVolume = 0.7\<rparr>\<rparr>,
      \<lparr>el_src = ''/sounds/rain.mp3'', el_volume = 0, el_paused = False,
       el_crossfadeTriggered = False,
       el_listener = Some \<lparr>cap_sound = rain, cap_volume = 1, cap_masterVolume = 0.7\<rparr>\<rparr>]"
  by (simp_all add: near_end_def handleTimeUpdate_def rain_playing_eval dom_defs Let_def rain_def)

text \<open>
  Claim C3 says that a completed crossfade leaves the incoming element at the track's
  current volume times the current master volume, releases the outgoing element and
  emits the swap. The last two hold (\<open>fade_completion\<close>), and the incoming element
  ends exactly at the fade's target; but the target is the product of the volumes that
  the listener captured when the outgoing element was created. Here \<^verbatim>\<open>rain\<close> is toggled
  on while playing at master volume 0.7, the master volume is then set to 0.2, the
  track reaches its last three seconds and the fade runs its 60 steps: the track is
  swapped to the new element, the old one is paused with an empty source, and the new
  element's gain is 0.7, while the track's volume times the master volume is 0.2.
\<close>

theorem crossfade_ends_at_creation_gain:
  "activeSounds (state rain_playing) = [\<lparr>sound = rain, audio = 0, volume = 1\<rparr>]
   \<and> masterVolume (state rain_playing) = 0.2
   \<and> volume_of 0 (env rain_playing) = 0.2
   \<and> map_option targetVolume (snd near_end) = Some 0.7
   \<and> activeSounds (state crossfaded) = [\<lparr>sound = rain, audio = 1, volume = 1\<rparr>]
   \<and> masterVolume (state crossfaded) = 0.2
   \<and> volume_of 1 (env crossfaded) = 0.7
   \<and> paused_of 0 (env crossfaded)
   \<and> src_of 0 (env crossfaded) = []"
proof -
  let ?f = "\<lparr>fade_audio = 0, fade_newAudio = 1, isCurrentlyPlaying = True,
           oldInitialVolume = 0.2, targetVolume = 0.7, currentStep = 0,
           fadeInterval = Suc (next_interval (env rain_playing))\<rparr>"
  let ?m = "rain_playing\<lparr>env := fst near_end\<rparr>"
  have c: "crossfaded = fst (fadeRun four_sounds (fadeSteps - currentStep ?f) (Some ?f) ?m)"
    by (simp add: crossfaded_def near_end_eval)
  have fc: "volume_of (fade_newAudio ?f) (env crossfaded) = targetVolume ?f
       \<and> paused_of (fade_audio ?f) (env crossfaded)
       \<and> src_of (fade_audio ?f) (env crossfaded) = []
       \<and> state crossfaded =
           (state ?m)\<lparr>activeSounds :=
              map (\<lambda>a. if audio a = fade_audio ?f then a\<lparr>audio := fade_newAudio ?f\<rparr> else a)
                (activeSounds (state ?m))\<rparr>"
    unfolding c
    using fade_completion [of ?f ?m four_sounds]
    by (simp add: near_end_eval rain_playing_eval paused_of_def fadeSteps_def)
  show ?thesis
    using fc by (simp add: rain_playing_eval near_end_eval volume_of_def)
qed

section \<open>Reachable states respect the capacity\<close>

text \<open>
  Every reachable state has at most \<^verbatim>\<open>MAX_CONCURRENT_SOUNDS\<close> tracks, with distinct
  ids; so the hypothesis of the theorem of claim C1 holds in all of them.
\<close>

lemma set_splice1: "set (splice1 i xs) \<subseteq> set xs"
  by (auto simp: splice1_def dest: in_set_takeD in_set_dropD)

lemma distinct_splice1: "distinct (map f xs) \<Longrightarrow> distinct (map f (splice1 i xs))"
proof (induction xs arbitrary: i)
  case Nil
  then show ?case by (simp add: splice1_def)
next
  case (Cons x xs)
  show ?case
  proof (cases i)
    case 0
    then show ?thesis using Cons.prems by (simp add: splice1_def)
  next
    case (Suc j)
    have eq: "splice1 (Suc j) (x # xs) = x # splice1 j xs" by (simp add: splice1_def)
    have "f x \<notin> f ` set (splice1 j xs)"
      using Cons.prems set_splice1 [of j xs] by auto
    then show ?thesis
      using Cons.IH [of j] Cons.prems by (simp add: Suc eq)
  qed
qed

lemma tracks_ok_toggle:
  assumes "tracks_ok st"
  shows "tracks_ok (snd (toggle_sound sd (e, st)))"
proof (cases "findIndex (has_id (sound_id sd)) (activeSounds st)")
  case None
  then have inactive: "\<not> list_ex (has_id (sound_id sd)) (activeSounds st)"
    by (simp add: findIndex_None)
  show ?thesis
  proof (cases "length (activeSounds st) < MAX_CONCURRENT_SOUNDS")
    case True
    have "sound_id sd \<notin> (sound_id \<circ> sound) ` set (activeSounds st)"
      using inactive by (auto simp: list_ex_iff has_id_def)
    then show ?thesis
      using assms True by (simp add: toggle_sound_on [OF inactive True] tracks_ok_def)
  next
    case False
    then show ?thesis
      using assms inactive by (simp add: toggle_sound_full)
  qed
next
  case (Some i)
  then show ?thesis
    using assms
    by (simp add: toggle_sound_def Let_def tracks_ok_def length_splice1 distinct_splice1)
qed

lemma tracks_ok_retuned:
  "sound_id \<circ> sound \<circ> (\<lambda>a. if P a then a\<lparr>volume := v\<rparr> else a) = sound_id \<circ> sound"
  by (auto simp: fun_eq_iff)

lemma tracks_ok_readdressed:
  "sound_id \<circ> sound \<circ> (\<lambda>a. if P a then a\<lparr>audio := h\<rparr> else a) = sound_id \<circ> sound"
  by (auto simp: fun_eq_iff)

lemma created_ids:
  "map (sound_id \<circ> sound) (created catalogue cur n ms) =
     map fst (filter (\<lambda>(k, v). k \<notin> cur \<and> find (\<lambda>s. sound_id s = k) catalogue \<noteq> None) ms)"
  using arg_cong [OF created_entries [of catalogue cur n ms], of "map fst"]
  by (simp add: comp_def)

lemma tracks_ok_apply_mix:
  assumes ok: "tracks_ok st"
    and d: "distinct (map fst (mix_sounds mix))"
    and le: "length (mix_sounds mix) \<le> MAX_CONCURRENT_SOUNDS"
  shows "tracks_ok (snd (apply_mix catalogue mix (e, st)))"
proof -
  let ?M = "mix_sounds mix" and ?A = "activeSounds st"
  let ?K = "filter (in_mix ?M) ?A"
  let ?C = "created catalogue (track_ids ?A) (length (audios e)) ?M"
  let ?A' = "activeSounds (snd (apply_mix catalogue mix (e, st)))"
  have res: "?A' = map (retune (track_ids ?A) ?M) ?K @ ?C"
    using apply_mix_result [of catalogue mix e st] by (simp add: prod_eq_iff)
  have ids: "map (sound_id \<circ> sound) ?A' =
               map (sound_id \<circ> sound) ?K
               @ map fst (filter (\<lambda>(k, v). k \<notin> track_ids ?A
                                  \<and> find (\<lambda>s. sound_id s = k) catalogue \<noteq> None) ?M)"
  proof -
    have k: "map (sound_id \<circ> sound) (map (retune (track_ids ?A) ?M) ?K) = map (sound_id \<circ> sound) ?K"
      by (simp add: retune_frame)
    show ?thesis
      by (simp only: res map_append created_ids k)
  qed
  have dK: "distinct (map (sound_id \<circ> sound) ?K)"
    using ok by (simp add: tracks_ok_def distinct_map_filter)
  have dC: "distinct (map fst (filter (\<lambda>(k, v). k \<notin> track_ids ?A
                                  \<and> find (\<lambda>s. sound_id s = k) catalogue \<noteq> None) ?M))"
    using d by (simp add: distinct_map_filter)
  have disj: "set (map (sound_id \<circ> sound) ?K)
                \<inter> set (map fst (filter (\<lambda>(k, v). k \<notin> track_ids ?A
                                  \<and> find (\<lambda>s. sound_id s = k) catalogue \<noteq> None) ?M)) = {}"
    by (auto simp: track_ids_def)
  have dist: "distinct (map (sound_id \<circ> sound) ?A')"
    unfolding ids using dK dC disj by simp
  have sub: "set (map (sound_id \<circ> sound) ?A') \<subseteq> set (map fst ?M)"
    unfolding ids by (auto simp: in_mix_def)
  have "length (map (sound_id \<circ> sound) ?A') = card (set (map (sound_id \<circ> sound) ?A'))"
    using distinct_card [OF dist] by simp
  also have "\<dots> \<le> card (set (map fst ?M))"
    using sub by (intro card_mono) simp_all
  also have "\<dots> \<le> length ?M"
    by (metis card_length length_map)
  finally have "length ?A' \<le> MAX_CONCURRENT_SOUNDS"
    using le by simp
  then show ?thesis
    using dist by (simp add: tracks_ok_def)
qed

lemma tracks_ok_same: "activeSounds st' = activeSounds st \<Longrightarrow> tracks_ok st' = tracks_ok st"
  by (simp add: tracks_ok_def)

lemma tracks_ok_reducer:
  assumes "within_capacity action" and "tracks_ok st"
  shows "tracks_ok (snd (audioReducer catalogue now (e, st) action))"
proof (cases action)
  case (TOGGLE_SOUND sd)
  then show ?thesis using assms(2) by (simp add: tracks_ok_toggle)
next
  case (SET_VOLUME k v)
  then show ?thesis
    using assms(2) by (simp add: set_volume_for_def Let_def tracks_ok_def tracks_ok_retuned)
next
  case (APPLY_MIX mix)
  then show ?thesis using assms by (simp add: tracks_ok_apply_mix)
qed (use assms(2) in \<open>simp_all add: set_master_volume_def toggle_play_pause_def
      pause_all_sounds_def play_all_sounds_def set_timer_def cancel_timer_def Let_def
      tracks_ok_def\<close>)

lemma state_dispatch:
  "state (dispatch catalogue now action m) = snd (audioReducer catalogue now (env m, state m) action)"
  by (cases action)
     (simp_all add: dispatch_def notify_def startTimer_def stopTimer_def store_custom_mix_def
        saveCustomMixesToStorage_def Let_def split: prod.splits option.splits)

lemma tracks_ok_dispatch:
  "within_capacity action \<Longrightarrow> tracks_ok (state m) \<Longrightarrow>
   tracks_ok (state (dispatch catalogue now action m))"
  by (simp add: state_dispatch tracks_ok_reducer)

lemma state_stopTimer: "state (stopTimer m) = state m"
  by (simp add: stopTimer_def split: option.splits)

lemma tracks_ok_tick: "tracks_ok (state m) \<Longrightarrow> tracks_ok (state (tick catalogue now m))"
  by (auto simp: tick_def Let_def state_stopTimer intro!: tracks_ok_dispatch
      split: option.splits)

lemma tracks_ok_handleCrossfade:
  "tracks_ok (state m) \<Longrightarrow> tracks_ok (state (handleCrossfade catalogue old new m))"
  by (auto simp: handleCrossfade_def replace_audio_def notify_def tracks_ok_def
      tracks_ok_readdressed split: option.splits)

lemma tracks_ok_fadeStep:
  "tracks_ok (state m) \<Longrightarrow> tracks_ok (state (fst (fadeStep catalogue f m)))"
  by (auto simp: fadeStep_def Let_def intro!: tracks_ok_handleCrossfade)

lemma tracks_ok_reactivate:
  "tracks_ok (state m) \<Longrightarrow> tracks_ok (state (reactivate catalogue now q m))"
  by (cases q)
     (auto simp: reactivate_def toggleSound_def intro!: tracks_ok_dispatch split: option.splits)

lemma tracks_ok_fold_reactivate:
  "tracks_ok (state m) \<Longrightarrow> tracks_ok (state (fold (reactivate catalogue now) qs m))"
  by (induction qs arbitrary: m) (simp_all add: tracks_ok_reactivate)

lemma tracks_ok_new: "tracks_ok (state (new_AudioStateManager catalogue now e))"
proof -
  let ?m0 = "\<lparr>env = e, state = initialAudioState, timerInterval = None, customMixes = [],
              delivered = []\<rparr>"
  have init: "tracks_ok (state ?m0)"
    by (simp add: tracks_ok_def initialAudioState_def)
  have "tracks_ok (state (loadSavedState catalogue now ?m0))"
  proof (cases "stored_audio_state e")
    case None
    then show ?thesis using init by (simp add: loadSavedState_def)
  next
    case (Some s)
    show ?thesis
    proof (cases s)
      case Malformed
      then show ?thesis using init Some by (simp add: loadSavedState_def)
    next
      case (Parsed ps)
      let ?m1 = "dispatch catalogue now (INITIALIZE_STATE (restoredState ps)) ?m0"
      let ?m2 = "?m1\<lparr>state := (state ?m1)\<lparr>isPlaying := False\<rparr>\<rparr>"
      have "tracks_ok (state ?m1)"
        using init by (intro tracks_ok_dispatch) simp_all
      then have "tracks_ok (state ?m2)"
        by (simp add: tracks_ok_def)
      then have "tracks_ok (state (fold (reactivate catalogue now) ps ?m2))"
        by (rule tracks_ok_fold_reactivate)
      then show ?thesis
        using Some Parsed by (simp add: loadSavedState_def Let_def notify_def tracks_ok_def)
    qed
  qed
  then show ?thesis
    by (simp add: new_AudioStateManager_def startTimerIfNeeded_frame loadCustomMixes_frame)
qed

lemma reachable_tracks_ok: "reachable catalogue m \<Longrightarrow> tracks_ok (state m)"
proof (induction rule: reachable.induct)
  case (constructed now e)
  show ?case by (rule tracks_ok_new)
next
  case (dispatched m action now)
  then show ?case by (simp add: tracks_ok_dispatch)
next
  case (ticked m now)
  then show ?case by (simp add: tracks_ok_tick)
next
  case (time_updated m h duration currentTime)
  then show ?case by (simp add: tracks_ok_def)
next
  case (fade_stepped m f)
  then show ?case by (simp add: tracks_ok_fadeStep)
next
  case (swapped m oldAudio newAudio)
  then show ?case by (simp add: tracks_ok_handleCrossfade)
qed

lemma reachable_toggles:
  "reachable catalogue m \<Longrightarrow> reachable catalogue (fold (toggleSound catalogue now) sds m)"
proof (induction sds arbitrary: m)
  case Nil
  then show ?case by simp
next
  case (Cons sd sds)
  have "reachable catalogue (toggleSound catalogue now sd m)"
    unfolding toggleSound_def using Cons.prems by (rule reachable.dispatched) simp
  then show ?case using Cons.IH by simp
qed

lemma fresh_manager_constructed: "fresh_manager = new_AudioStateManager four_sounds 0 empty_env"
  by (simp add: new_AudioStateManager_def loadSavedState_def loadCustomMixes_def
      startTimerIfNeeded_def fresh_manager_def empty_env_def initialAudioState_def)

lemma three_active_reachable: "reachable four_sounds three_active"
  unfolding three_active_def fresh_manager_constructed
  by (intro reachable_toggles reachable.constructed)

end
